theory Spec2Isabelle
  imports Main "HOL-Library.Multiset"
begin

section \<open>The client pool of core/session.go\<close>

text \<open>
  A shallow embedding of \<^verbatim>\<open>InitGitHubClients\<close>, \<^verbatim>\<open>GetClient\<close> and
  \<^verbatim>\<open>FreeClient\<close> of \<^verbatim>\<open>core/session.go\<close>.

  \<^item> Go's \<^verbatim>\<open>int\<close> is 64 bits wide: the product that sizes the channels and the
    loop counter are reduced by \<open>wrap64\<close>.
  \<^item> A \<^verbatim>\<open>time.Time\<close> is a number of nanoseconds on the process clock, a
    \<^verbatim>\<open>time.Duration\<close> a number of nanoseconds.
  \<^item> A \<^verbatim>\<open>*GitHubClientWrapper\<close> is an address in a store of wrappers: the
    channels carry addresses, and two wrappers with equal fields are still two handles.
  \<^item> A buffered channel is its capacity and the addresses waiting in it, oldest first; a
    nil channel is \<open>None\<close>.
  \<^item> A call of the logger is recorded as the level, the format and the arguments the
    source passes.
\<close>

subsection \<open>Data\<close>

type_synonym time = int
type_synonym Duration = int
type_synonym ptr = nat

definition Millisecond :: Duration where
  "Millisecond = 1000000"

definition Second :: Duration where
  "Second = 1000 * Millisecond"

definition wrap64 :: "int \<Rightarrow> int" where
  "wrap64 x = (x + 2 ^ 63) mod 2 ^ 64 - 2 ^ 63"

datatype github_Client = NewClient string

record GitHubClientWrapper =
  Client :: github_Client
  Token :: string
  RateLimitedUntil :: time

record chan =
  cap :: nat
  buf :: "ptr list"

text \<open>The error of \<^verbatim>\<open>client.Users.Get\<close>: a \<^verbatim>\<open>*github.ErrorResponse\<close> (the
  service answered and refused) or any other error; \<open>None\<close> is \<^verbatim>\<open>nil\<close>.\<close>

datatype error = ErrorResponse string | OtherError string

datatype level = DEBUG | WARN | FATAL

datatype arg = Str string | Num int | Dur Duration | Err error

type_synonym log_call = "level \<times> string \<times> arg list"

datatype panic = MakechanSizeOutOfRange | SliceBoundsOutOfRange | NilDereference

text \<open>The part of \<^verbatim>\<open>Session\<close> that the three functions read or write:
  \<^verbatim>\<open>*s.Options.Threads\<close>, \<^verbatim>\<open>*s.Options.Local\<close>, \<^verbatim>\<open>s.Config.GitHubAccessTokens\<close>, the two
  channels, the calls made on \<^verbatim>\<open>s.Log\<close>, the tokens with which \<^verbatim>\<open>client.Users.Get\<close> was
  called, and the store of wrappers.\<close>

record Session =
  Threads :: int
  Local :: string
  GitHubAccessTokens :: "string list"
  Clients :: "chan option"
  ExhaustedClients :: "chan option"
  Log :: "log_call list"
  UsersGet :: "string list"
  heap :: "GitHubClientWrapper list"

text \<open>How a call ends: it returns, it panics, it is blocked at a channel send that
  cannot proceed, or the process exits. Each comes with the session as it is then.\<close>

datatype 'a outcome = Returned 'a | Panic panic 'a | Blocked 'a | Exit 'a

subsection \<open>Channels, slices, the logger\<close>

text \<open>\<^verbatim>\<open>make(chan *GitHubClientWrapper, n)\<close> panics with \<^verbatim>\<open>makechan: size out of range\<close>
  (\<open>None\<close>) on a negative size, and on a size whose buffer of \<open>8 * n\<close> bytes is more than
  \<^verbatim>\<open>maxAlloc - hchanSize\<close>. On linux/amd64 \<^verbatim>\<open>maxAlloc\<close> is \<open>2 ^ 48\<close> and \<^verbatim>\<open>hchanSize\<close> is
  96 or, from Go 1.23 on, 104; the model takes 104, so the largest size is \<open>2 ^ 45 - 13\<close>.
  Whether the machine has the memory for a size that is accepted is not modelled.
  \<^verbatim>\<open>len\<close> of a nil channel is 0.\<close>

definition maxChan :: int where
  "maxChan = 2 ^ 45 - 13"

definition make_chan :: "int \<Rightarrow> chan option" where
  "make_chan n = (if n < 0 \<or> maxChan < n then None else Some \<lparr>cap = nat n, buf = []\<rparr>)"

definition chan_len :: "chan option \<Rightarrow> nat" where
  "chan_len c = (case c of None \<Rightarrow> 0 | Some ch \<Rightarrow> length (buf ch))"

definition qbuf :: "chan option \<Rightarrow> ptr list" where
  "qbuf c = (case c of None \<Rightarrow> [] | Some ch \<Rightarrow> buf ch)"

text \<open>A send that can proceed appends to the buffer; \<open>None\<close> is a send that cannot (the
  buffer is full, or the channel is nil).\<close>

definition chan_send :: "chan option \<Rightarrow> ptr \<Rightarrow> chan option" where
  "chan_send c p =
     (case c of
        None \<Rightarrow> None
      | Some ch \<Rightarrow> if length (buf ch) < cap ch then Some (ch\<lparr>buf := buf ch @ [p]\<rparr>) else None)"

definition has_room :: "chan option \<Rightarrow> bool" where
  "has_room c = (case c of None \<Rightarrow> False | Some ch \<Rightarrow> length (buf ch) < cap ch)"

text \<open>A receive that can proceed takes the oldest address.\<close>

definition chan_recv :: "chan option \<Rightarrow> (ptr \<times> chan) option" where
  "chan_recv c =
     (case c of
        None \<Rightarrow> None
      | Some ch \<Rightarrow> (case buf ch of [] \<Rightarrow> None | p # ps \<Rightarrow> Some (p, ch\<lparr>buf := ps\<rparr>)))"

text \<open>\<^verbatim>\<open>token[:10]\<close>: the first ten bytes, a panic on a shorter string.\<close>

definition slice10 :: "string \<Rightarrow> string option" where
  "slice10 token = (if length token < 10 then None else Some (take 10 token))"

text \<open>\<^verbatim>\<open>s.Log.Debug\<close>, \<^verbatim>\<open>s.Log.Warn\<close>: the call is recorded with its arguments, which
  Go evaluates before the call whatever the logger then prints.\<close>

definition log_call :: "level \<Rightarrow> string \<Rightarrow> arg list \<Rightarrow> Session \<Rightarrow> Session" where
  "log_call lv fmt args s = s\<lparr>Log := Log s @ [(lv, fmt, args)]\<rparr>"

text \<open>Modelled from the spec: \<^verbatim>\<open>Logger.Fatal\<close> is not in \<^verbatim>\<open>session.go\<close>. The spec
  says that a fatal condition produces a single explanatory message and process
  termination.\<close>

definition Log_Fatal :: "string \<Rightarrow> Session \<Rightarrow> Session outcome" where
  "Log_Fatal msg s = Exit (log_call FATAL msg [] s)"

text \<open>Reading a field through a pointer; \<open>None\<close> for an address where no wrapper is.\<close>

definition deref :: "Session \<Rightarrow> ptr \<Rightarrow> GitHubClientWrapper option" where
  "deref s p = (if p < length (heap s) then Some (heap s ! p) else None)"

subsection \<open>InitGitHubClients\<close>

text \<open>\<^verbatim>\<open>err != nil\<close> and \<^verbatim>\<open>err.(*github.ErrorResponse)\<close> succeeds.\<close>

definition rejected :: "error option \<Rightarrow> bool" where
  "rejected err = (case err of None \<Rightarrow> False | Some (ErrorResponse m) \<Rightarrow> True | Some (OtherError m) \<Rightarrow> False)"

text \<open>\<^verbatim>\<open>&GitHubClientWrapper{client, token, time.Now().Add(-1 * time.Second)}\<close>: the
  wrapper stored at the next free address; \<open>clk a\<close> is what \<^verbatim>\<open>time.Now()\<close> returns when
  the wrapper at address \<open>a\<close> is built.\<close>

definition new_wrapper :: "(nat \<Rightarrow> time) \<Rightarrow> string \<Rightarrow> nat \<Rightarrow> GitHubClientWrapper" where
  "new_wrapper clk token a =
     \<lparr>Client = NewClient token, Token = token, RateLimitedUntil = clk a + (- 1) * Second\<rparr>"

definition free_slots :: "Session \<Rightarrow> nat" where
  "free_slots s = (case Clients s of None \<Rightarrow> 0 | Some ch \<Rightarrow> cap ch - length (buf ch))"

text \<open>\<^verbatim>\<open>for i := 0; i <= *s.Options.Threads; i++ { s.Clients <- &GitHubClientWrapper{...} }\<close>.
  Nothing receives while the session starts, so a send that cannot proceed never will.\<close>

function send_clients :: "(nat \<Rightarrow> time) \<Rightarrow> string \<Rightarrow> int \<Rightarrow> Session \<Rightarrow> Session outcome" where
  "send_clients clk token i s =
     (if i \<le> Threads s then
        (let a = length (heap s);
             s1 = s\<lparr>heap := heap s @ [new_wrapper clk token a]\<rparr>
         in case chan_send (Clients s1) a of
              None \<Rightarrow> Blocked s1
            | Some ch \<Rightarrow> send_clients clk token (wrap64 (i + 1)) (s1\<lparr>Clients := Some ch\<rparr>))
      else Returned s)"
  by pat_completeness auto
termination
  by (relation "measure (\<lambda>(clk, token, i, s). free_slots s)")
     (auto simp: free_slots_def chan_send_def split: option.splits if_splits)

declare send_clients.simps [simp del]

text \<open>The body of \<^verbatim>\<open>for _, token := range s.Config.GitHubAccessTokens\<close>; \<open>ug token\<close> is
  the error that \<^verbatim>\<open>client.Users.Get\<close> returns for the client built from the token.\<close>

fun range_tokens ::
  "(string \<Rightarrow> error option) \<Rightarrow> (nat \<Rightarrow> time) \<Rightarrow> string list \<Rightarrow> Session \<Rightarrow> Session outcome" where
  "range_tokens ug clk [] s = Returned s"
| "range_tokens ug clk (token # rest) s =
     (let s1 = s\<lparr>UsersGet := UsersGet s @ [token]\<rparr>;
          err = ug token
      in if rejected err then
           (case slice10 token of
              None \<Rightarrow> Panic SliceBoundsOutOfRange s1
            | Some pre \<Rightarrow>
                range_tokens ug clk rest
                  (log_call WARN ''Failed to validate token %s[..]: %s'' [Str pre, Err (the err)] s1))
         else
           (case send_clients clk token 0 s1 of
              Returned s2 \<Rightarrow> range_tokens ug clk rest s2
            | Panic e s2 \<Rightarrow> Panic e s2
            | Blocked s2 \<Rightarrow> Blocked s2
            | Exit s2 \<Rightarrow> Exit s2))"

definition InitGitHubClients ::
  "(string \<Rightarrow> error option) \<Rightarrow> (nat \<Rightarrow> time) \<Rightarrow> Session \<Rightarrow> Session outcome" where
  "InitGitHubClients ug clk s =
     (if length (Local s) \<le> 0 then
        (let chanSize = wrap64 (Threads s * (int (length (GitHubAccessTokens s)) + 1))
         in case make_chan chanSize of
              None \<Rightarrow> Panic MakechanSizeOutOfRange s
            | Some ch \<Rightarrow>
                (case range_tokens ug clk (GitHubAccessTokens s)
                        (s\<lparr>Clients := Some ch, ExhaustedClients := Some ch\<rparr>) of
                   Returned s' \<Rightarrow>
                     if chan_len (Clients s') < 1
                     then Log_Fatal ''No valid GitHub tokens provided. Quitting!'' s'
                     else Returned s'
                 | Panic e s' \<Rightarrow> Panic e s'
                 | Blocked s' \<Rightarrow> Blocked s'
                 | Exit s' \<Rightarrow> Exit s'))
      else Returned s)"

subsection \<open>FreeClient\<close>

definition After :: "time \<Rightarrow> time \<Rightarrow> bool" where
  "After t u = (u < t)"

datatype queue = ToClients | ToExhaustedClients

text \<open>The branch of \<^verbatim>\<open>if client.RateLimitedUntil.After(time.Now())\<close>; \<open>now\<close> is what
  \<^verbatim>\<open>time.Now()\<close> returns.\<close>

definition FreeClient_chan :: "time \<Rightarrow> GitHubClientWrapper \<Rightarrow> queue" where
  "FreeClient_chan now w =
     (if After (RateLimitedUntil w) now then ToExhaustedClients else ToClients)"

definition send_to :: "queue \<Rightarrow> ptr \<Rightarrow> Session \<Rightarrow> Session option" where
  "send_to q p s =
     (case q of
        ToExhaustedClients \<Rightarrow>
          map_option (\<lambda>ch. s\<lparr>ExhaustedClients := Some ch\<rparr>) (chan_send (ExhaustedClients s) p)
      | ToClients \<Rightarrow>
          map_option (\<lambda>ch. s\<lparr>Clients := Some ch\<rparr>) (chan_send (Clients s) p))"

text \<open>\<^verbatim>\<open>FreeClient\<close> run by one goroutine with no other goroutine moving: it returns when
  the send can proceed, and is blocked at the send, the session unchanged, when it cannot.\<close>

definition FreeClient :: "time \<Rightarrow> ptr \<Rightarrow> Session \<Rightarrow> Session outcome" where
  "FreeClient now p s =
     (case deref s p of
        None \<Rightarrow> Panic NilDereference s
      | Some w \<Rightarrow>
          (case send_to (FreeClient_chan now w) p s of
             None \<Rightarrow> Blocked s
           | Some s' \<Rightarrow> Returned s'))"

subsection \<open>GetClient\<close>

text \<open>
  \<^verbatim>\<open>GetClient\<close> is \<^verbatim>\<open>for { select { ... } }\<close> with two receive cases and a default.
  Go's \<^verbatim>\<open>select\<close> takes one of the cases that can proceed, by a uniform pseudo-random
  choice when there are several, and the default case only when none can. The case taken
  is an argument of the model.

  A goroutine is at one of the places below. \<^verbatim>\<open>GetClient\<close> sleeps with the client in a
  local variable, and a send can wait, so these are places too.

  A receive can proceed when the buffer has an entry. The hand-over from a waiting sender
  to a receiver on a channel of size 0 is left out: \<^verbatim>\<open>InitGitHubClients\<close> returns no
  channel of size 0 (with such channels its first send blocks).
\<close>

datatype select_case = CaseClients | CaseExhaustedClients | CaseDefault

datatype cont = ToCaller | ToLoop

datatype pc =
    Idle
  | AtSelect
  | Sleeping ptr time
  | Backoff time
  | Freeing ptr queue cont
  | Holding ptr
  | Dead panic ptr

definition can_proceed :: "Session \<Rightarrow> select_case \<Rightarrow> bool" where
  "can_proceed s c =
     (case c of
        CaseClients \<Rightarrow> chan_recv (Clients s) \<noteq> None
      | CaseExhaustedClients \<Rightarrow> chan_recv (ExhaustedClients s) \<noteq> None
      | CaseDefault \<Rightarrow> chan_recv (Clients s) = None \<and> chan_recv (ExhaustedClients s) = None)"

definition maxDuration :: Duration where
  "maxDuration = 2 ^ 63 - 1"

definition minDuration :: Duration where
  "minDuration = - (2 ^ 63)"

text \<open>\<^verbatim>\<open>time.Until(t)\<close> is \<^verbatim>\<open>t.Sub(time.Now())\<close>, which saturates.\<close>

definition Until :: "time \<Rightarrow> time \<Rightarrow> Duration" where
  "Until t now = max minDuration (min maxDuration (t - now))"

text \<open>\<^verbatim>\<open>time.Sleep(d)\<close> started at \<open>now\<close> returns at this time or later; at once when
  \<open>d\<close> is zero or negative.\<close>

definition Sleep_until :: "time \<Rightarrow> Duration \<Rightarrow> time" where
  "Sleep_until now d = now + max 0 d"

text \<open>One pass through the \<^verbatim>\<open>select\<close>, for a case that can proceed, up to the return
  or the call of \<^verbatim>\<open>time.Sleep\<close>: the place the goroutine is at afterwards, and the
  session.\<close>

definition GetClient_select :: "select_case \<Rightarrow> time \<Rightarrow> Session \<Rightarrow> pc \<times> Session" where
  "GetClient_select c now s =
     (case c of
        CaseClients \<Rightarrow>
          (case chan_recv (Clients s) of
             None \<Rightarrow> (AtSelect, s)
           | Some (p, ch) \<Rightarrow>
               (let s1 = s\<lparr>Clients := Some ch\<rparr>
                in case deref s1 p of
                     None \<Rightarrow> (Dead NilDereference p, s1)
                   | Some client \<Rightarrow>
                       (case slice10 (Token client) of
                          None \<Rightarrow> (Dead SliceBoundsOutOfRange p, s1)
                        | Some pre \<Rightarrow>
                            (Holding p, log_call DEBUG ''Using client with token: %s'' [Str pre] s1))))
      | CaseExhaustedClients \<Rightarrow>
          (case chan_recv (ExhaustedClients s) of
             None \<Rightarrow> (AtSelect, s)
           | Some (p, ch) \<Rightarrow>
               (let s1 = s\<lparr>ExhaustedClients := Some ch\<rparr>
                in case deref s1 p of
                     None \<Rightarrow> (Dead NilDereference p, s1)
                   | Some client \<Rightarrow>
                       (let sleepTime = Until (RateLimitedUntil client) now
                        in (Sleeping p (Sleep_until now sleepTime),
                            log_call WARN
                              ''All GitHub tokens exhausted/rate limited. Sleeping for %s''
                              [Dur sleepTime] s1))))
      | CaseDefault \<Rightarrow>
          (Backoff (Sleep_until now (Millisecond * 1000)),
           log_call DEBUG ''Exhausted Clients: %d'' [Num (int (chan_len (ExhaustedClients s)))]
             (log_call DEBUG ''Available Clients: %d'' [Num (int (chan_len (Clients s)))] s)))"

text \<open>The rest of the second case, after \<^verbatim>\<open>time.Sleep\<close> has returned: the debug line
  and \<^verbatim>\<open>s.FreeClient(client)\<close> up to its send.\<close>

definition GetClient_wake :: "ptr \<Rightarrow> time \<Rightarrow> Session \<Rightarrow> pc \<times> Session" where
  "GetClient_wake p now s =
     (case deref s p of
        None \<Rightarrow> (Dead NilDereference p, s)
      | Some client \<Rightarrow>
          (case slice10 (Token client) of
             None \<Rightarrow> (Dead SliceBoundsOutOfRange p, s)
           | Some pre \<Rightarrow>
               (Freeing p (FreeClient_chan now client) ToLoop,
                log_call DEBUG ''Returning client %s to pool'' [Str pre] s)))"

subsection \<open>Goroutines\<close>

text \<open>
  What one goroutine can do next. \<open>None\<close>: it cannot do this now.

  Modelled from the spec: the callers of \<^verbatim>\<open>GetClient\<close> and \<^verbatim>\<open>FreeClient\<close> are not in
  \<^verbatim>\<open>session.go\<close>. By the spec a worker calls Acquire, may set the handle's
  \<open>usableAt\<close> after a rate-limit response, and calls Release exactly once per Acquire.
\<close>

datatype action =
    CallGetClient
  | Select select_case
  | Wake
  | Send
  | SetRateLimitedUntil time
  | CallFreeClient

fun act :: "action \<Rightarrow> pc \<Rightarrow> time \<Rightarrow> Session \<Rightarrow> (pc \<times> Session) option" where
  "act CallGetClient Idle now s = Some (AtSelect, s)"
| "act (Select c) AtSelect now s =
     (if can_proceed s c then Some (GetClient_select c now s) else None)"
| "act Wake (Sleeping p t) now s = (if t \<le> now then Some (GetClient_wake p now s) else None)"
| "act Wake (Backoff t) now s = (if t \<le> now then Some (AtSelect, s) else None)"
| "act Send (Freeing p q k) now s =
     (case send_to q p s of
        None \<Rightarrow> None
      | Some s' \<Rightarrow> Some (case k of ToCaller \<Rightarrow> Idle | ToLoop \<Rightarrow> AtSelect, s'))"
| "act (SetRateLimitedUntil t) (Holding p) now s =
     (case deref s p of
        None \<Rightarrow> Some (Dead NilDereference p, s)
      | Some client \<Rightarrow>
          Some (Holding p, s\<lparr>heap := (heap s)[p := client\<lparr>RateLimitedUntil := t\<rparr>]\<rparr>))"
| "act CallFreeClient (Holding p) now s =
     (case deref s p of
        None \<Rightarrow> Some (Dead NilDereference p, s)
      | Some client \<Rightarrow> Some (Freeing p (FreeClient_chan now client) ToCaller, s))"
| "act _ _ _ _ = None"

fun is_Dead :: "pc \<Rightarrow> bool" where
  "is_Dead (Dead e p) = True"
| "is_Dead _ = False"

record system =
  sess :: Session
  pcs :: "pc list"
  clock :: time

text \<open>A panic in one goroutine ends the process.\<close>

definition crashed :: "system \<Rightarrow> bool" where
  "crashed \<sigma> = list_ex is_Dead (pcs \<sigma>)"

datatype event = Tick nat | Worker nat action

fun step :: "event \<Rightarrow> system \<Rightarrow> system option" where
  "step (Tick d) \<sigma> = (if crashed \<sigma> then None else Some (\<sigma>\<lparr>clock := clock \<sigma> + int d\<rparr>))"
| "step (Worker w a) \<sigma> =
     (if crashed \<sigma> \<or> length (pcs \<sigma>) \<le> w then None
      else case act a (pcs \<sigma> ! w) (clock \<sigma>) (sess \<sigma>) of
             None \<Rightarrow> None
           | Some (pc', s') \<Rightarrow> Some (\<sigma>\<lparr>sess := s', pcs := (pcs \<sigma>)[w := pc']\<rparr>))"

fun run :: "event list \<Rightarrow> system \<Rightarrow> system option" where
  "run [] \<sigma> = Some \<sigma>"
| "run (e # es) \<sigma> = (case step e \<sigma> of None \<Rightarrow> None | Some \<sigma>' \<Rightarrow> run es \<sigma>')"

text \<open>\<open>n\<close> workers, none of them in a call, on the session that
  \<^verbatim>\<open>InitGitHubClients\<close> returned.\<close>

definition start :: "nat \<Rightarrow> Session \<Rightarrow> time \<Rightarrow> system" where
  "start n s t = \<lparr>sess = s, pcs = replicate n Idle, clock = t\<rparr>"

text \<open>The clients a goroutine has in a local variable: on loan to a caller between
  \<^verbatim>\<open>GetClient\<close> and \<^verbatim>\<open>FreeClient\<close>, or inside one of the two between a receive and
  a send.\<close>

fun holds :: "pc \<Rightarrow> ptr list" where
  "holds (Sleeping p t) = [p]"
| "holds (Freeing p q k) = [p]"
| "holds (Holding p) = [p]"
| "holds (Dead e p) = [p]"
| "holds Idle = []"
| "holds AtSelect = []"
| "holds (Backoff t) = []"

definition on_loan :: "system \<Rightarrow> ptr list" where
  "on_loan \<sigma> = concat (map holds (pcs \<sigma>))"

text \<open>The handles in the two channels, and all handles: those and the ones on loan.\<close>

definition queued :: "Session \<Rightarrow> ptr multiset" where
  "queued s = mset (qbuf (Clients s)) + mset (qbuf (ExhaustedClients s))"

definition handles :: "system \<Rightarrow> ptr multiset" where
  "handles \<sigma> =
     mset (qbuf (Clients (sess \<sigma>))) + mset (qbuf (ExhaustedClients (sess \<sigma>))) + mset (on_loan \<sigma>)"

text \<open>The capacities of the two channels.\<close>

definition caps :: "Session \<Rightarrow> nat option \<times> nat option" where
  "caps s = (map_option cap (Clients s), map_option cap (ExhaustedClients s))"

subsection \<open>What the credential loop leaves behind\<close>

text \<open>The credentials that are not skipped, the warnings for those that are, and the
  wrappers built, \<open>m\<close> for each credential from address \<open>h\<close> on.\<close>

definition accepted :: "(string \<Rightarrow> error option) \<Rightarrow> string list \<Rightarrow> string list" where
  "accepted ug ts = filter (\<lambda>t. \<not> rejected (ug t)) ts"

definition warn_lines :: "(string \<Rightarrow> error option) \<Rightarrow> string list \<Rightarrow> log_call list" where
  "warn_lines ug ts =
     map (\<lambda>t. (WARN, ''Failed to validate token %s[..]: %s'', [Str (take 10 t), Err (the (ug t))]))
       (filter (\<lambda>t. rejected (ug t)) ts)"

fun seeded :: "(nat \<Rightarrow> time) \<Rightarrow> nat \<Rightarrow> string list \<Rightarrow> nat \<Rightarrow> GitHubClientWrapper list" where
  "seeded clk m [] h = []"
| "seeded clk m (t # ts) h = map (new_wrapper clk t) [h..<h + m] @ seeded clk m ts (h + m)"

text \<open>The number of wrappers the loop builds, the size both channels are made with, and
  the session the loop leaves when every send can proceed. They are stated for a worker
  count and a product in the range of a 64-bit integer (\<open>in_range\<close>), for a channel size
  that \<^verbatim>\<open>make\<close> accepts (\<open>allocatable\<close>), and for credentials whose warning can be
  logged (\<open>loggable\<close>).\<close>

definition pool_size :: "(string \<Rightarrow> error option) \<Rightarrow> Session \<Rightarrow> nat" where
  "pool_size ug s = length (accepted ug (GitHubAccessTokens s)) * nat (Threads s + 1)"

definition chan_size :: "Session \<Rightarrow> nat" where
  "chan_size s = nat (Threads s) * (length (GitHubAccessTokens s) + 1)"

definition seeded_session :: "(string \<Rightarrow> error option) \<Rightarrow> (nat \<Rightarrow> time) \<Rightarrow> Session \<Rightarrow> Session" where
  "seeded_session ug clk s =
     s\<lparr>Clients := Some \<lparr>cap = chan_size s,
                          buf = [length (heap s)..<length (heap s) + pool_size ug s]\<rparr>,
       ExhaustedClients := Some \<lparr>cap = chan_size s, buf = []\<rparr>,
       UsersGet := UsersGet s @ GitHubAccessTokens s,
       Log := Log s @ warn_lines ug (GitHubAccessTokens s),
       heap := heap s @ seeded clk (nat (Threads s + 1)) (accepted ug (GitHubAccessTokens s))
                 (length (heap s))\<rparr>"

definition allocatable :: "Session \<Rightarrow> bool" where
  "allocatable s = (int (chan_size s) \<le> maxChan)"

definition in_range :: "Session \<Rightarrow> bool" where
  "in_range s = (0 \<le> Threads s \<and> Threads s * (int (length (GitHubAccessTokens s)) + 1) < 2 ^ 63)"

definition loggable :: "(string \<Rightarrow> error option) \<Rightarrow> string list \<Rightarrow> bool" where
  "loggable ug ts = list_all (\<lambda>t. rejected (ug t) \<longrightarrow> 10 \<le> length t) ts"

text \<open>The session as \<^verbatim>\<open>NewSession\<close> has it when it calls \<^verbatim>\<open>Start\<close>: both channels
  nil, nothing logged, no wrapper built.\<close>

definition NewSession :: "int \<Rightarrow> string \<Rightarrow> string list \<Rightarrow> Session" where
  "NewSession threads local tokens =
     \<lparr>Threads = threads, Local = local, GitHubAccessTokens = tokens, Clients = None,
      ExhaustedClients = None, Log = [], UsersGet = [], heap = []\<rparr>"

subsection \<open>Sessions that differ only past the tenth byte of a token\<close>










subsection \<open>Example inputs\<close>

text \<open>The credentials whose validation call returns no error, five remote services (one
  accepts every token, one is unreachable, one refuses every token, one accepts the tokens
  that start with \<open>ghp_\<close>, one accepts a single token), and a clock.\<close>

definition validated :: "(string \<Rightarrow> error option) \<Rightarrow> string list \<Rightarrow> string list" where
  "validated ug ts = filter (\<lambda>t. ug t = None) ts"

definition Users_Get_ok :: "string \<Rightarrow> error option" where
  "Users_Get_ok t = None"

definition Users_Get_timeout :: "string \<Rightarrow> error option" where
  "Users_Get_timeout t = Some (OtherError ''dial tcp: i/o timeout'')"

definition Users_Get_401 :: "string \<Rightarrow> error option" where
  "Users_Get_401 t = Some (ErrorResponse ''401 Bad credentials'')"

definition Users_Get_ghp :: "string \<Rightarrow> error option" where
  "Users_Get_ghp t = (if take 4 t = ''ghp_'' then None else Some (ErrorResponse ''401 Bad credentials''))"


definition clock0 :: "nat \<Rightarrow> time" where
  "clock0 a = 1700000000 * Second + int a"

text \<open>A pool of three handles for one credential: the first in \<^verbatim>\<open>Clients\<close>, the second
  in \<^verbatim>\<open>ExhaustedClients\<close>, the third with a caller; the last two are rate limited until
  second 100.\<close>

definition example_pool :: Session where
  "example_pool =
     \<lparr>Threads = 2, Local = [], GitHubAccessTokens = [''ghp_aaaaaaaaaaaa''],
      Clients = Some \<lparr>cap = 4, buf = [0]\<rparr>,
      ExhaustedClients = Some \<lparr>cap = 4, buf = [1]\<rparr>,
      Log = [], UsersGet = [''ghp_aaaaaaaaaaaa''],
      heap = [\<lparr>Client = NewClient ''ghp_aaaaaaaaaaaa'', Token = ''ghp_aaaaaaaaaaaa'',
                RateLimitedUntil = 0\<rparr>,
              \<lparr>Client = NewClient ''ghp_aaaaaaaaaaaa'', Token = ''ghp_aaaaaaaaaaaa'',
                RateLimitedUntil = 100 * Second\<rparr>,
              \<lparr>Client = NewClient ''ghp_aaaaaaaaaaaa'', Token = ''ghp_aaaaaaaaaaaa'',
                RateLimitedUntil = 100 * Second\<rparr>]\<rparr>"

section \<open>The credential loop\<close>

lemma wrap64_id: "- (2 ^ 63) \<le> x \<Longrightarrow> x < 2 ^ 63 \<Longrightarrow> wrap64 x = x"
  unfolding wrap64_def by (simp add: mod_pos_pos_trivial)

lemma wrap64_small:
  "wrap64 4 = 4" "wrap64 1 = 1" "wrap64 2 = 2" "wrap64 (0 + 1) = 1" "wrap64 (1 + 1) = 2"
  by (simp_all add: wrap64_def)

lemma send_clients_fits:
  "Clients s = Some ch \<Longrightarrow> 0 \<le> i \<Longrightarrow> i \<le> Threads s + 1 \<Longrightarrow> Threads s + 1 < 2 ^ 63 \<Longrightarrow>
   n = nat (Threads s + 1 - i) \<Longrightarrow> length (buf ch) + n \<le> cap ch \<Longrightarrow>
   send_clients clk tok i s =
     Returned (s\<lparr>heap := heap s @ map (new_wrapper clk tok) [length (heap s)..<length (heap s) + n],
                 Clients := Some (ch\<lparr>buf := buf ch @ [length (heap s)..<length (heap s) + n]\<rparr>)\<rparr>)"
proof (induction n arbitrary: i s ch)
  case 0
  then have "\<not> i \<le> Threads s" by simp
  with 0 show ?case by (simp add: send_clients.simps[of clk tok i s])
next
  case (Suc n)
  then have le: "i \<le> Threads s" by simp
  let ?a = "length (heap s)"
  let ?s1 = "s\<lparr>heap := heap s @ [new_wrapper clk tok ?a]\<rparr>"
  let ?ch = "ch\<lparr>buf := buf ch @ [?a]\<rparr>"
  have snd: "chan_send (Clients ?s1) ?a = Some ?ch"
    using Suc.prems by (simp add: chan_send_def)
  have w: "wrap64 (i + 1) = i + 1"
    using Suc.prems by (intro wrap64_id) auto
  have step: "send_clients clk tok i s = send_clients clk tok (i + 1) (?s1\<lparr>Clients := Some ?ch\<rparr>)"
    using le snd w by (simp add: send_clients.simps[of clk tok i s] Let_def)
  have "send_clients clk tok (i + 1) (?s1\<lparr>Clients := Some ?ch\<rparr>) =
     Returned ((?s1\<lparr>Clients := Some ?ch\<rparr>)\<lparr>heap := heap (?s1\<lparr>Clients := Some ?ch\<rparr>) @ map (new_wrapper clk tok) [length (heap (?s1\<lparr>Clients := Some ?ch\<rparr>))..<length (heap (?s1\<lparr>Clients := Some ?ch\<rparr>)) + n],
                 Clients := Some (?ch\<lparr>buf := buf ?ch @ [length (heap (?s1\<lparr>Clients := Some ?ch\<rparr>))..<length (heap (?s1\<lparr>Clients := Some ?ch\<rparr>)) + n]\<rparr>)\<rparr>)"
    using Suc.prems by (intro Suc.IH) auto
  then show ?case
    unfolding step by (simp add: upt_conv_Cons del: upt_Suc)
qed

lemma send_clients_blocks:
  "Clients s = Some ch \<Longrightarrow> 0 \<le> i \<Longrightarrow> i \<le> Threads s + 1 \<Longrightarrow> Threads s + 1 < 2 ^ 63 \<Longrightarrow>
   n = nat (Threads s + 1 - i) \<Longrightarrow> length (buf ch) \<le> cap ch \<Longrightarrow> cap ch < length (buf ch) + n \<Longrightarrow>
   \<exists>s'. send_clients clk tok i s = Blocked s'"
proof (induction n arbitrary: i s ch)
  case 0
  then show ?case by simp
next
  case (Suc n)
  then have le: "i \<le> Threads s" by simp
  let ?a = "length (heap s)"
  let ?s1 = "s\<lparr>heap := heap s @ [new_wrapper clk tok ?a]\<rparr>"
  let ?ch = "ch\<lparr>buf := buf ch @ [?a]\<rparr>"
  show ?case
  proof (cases "length (buf ch) < cap ch")
    case False
    then have "chan_send (Clients ?s1) ?a = None"
      using Suc.prems by (simp add: chan_send_def)
    with le show ?thesis
      by (simp add: send_clients.simps[of clk tok i s] Let_def)
  next
    case True
    then have snd: "chan_send (Clients ?s1) ?a = Some ?ch"
      using Suc.prems by (simp add: chan_send_def)
    have w: "wrap64 (i + 1) = i + 1"
      using Suc.prems by (intro wrap64_id) auto
    have step: "send_clients clk tok i s = send_clients clk tok (i + 1) (?s1\<lparr>Clients := Some ?ch\<rparr>)"
      using le snd w by (simp add: send_clients.simps[of clk tok i s] Let_def)
    have "\<exists>s'. send_clients clk tok (i + 1) (?s1\<lparr>Clients := Some ?ch\<rparr>) = Blocked s'"
      using Suc.prems True by (intro Suc.IH[where ch = ?ch]) auto
    then show ?thesis unfolding step .
  qed
qed

lemma upt_glue: "[h..<h + m] @ [h + m..<h + m + k] = [h..<h + (m + k)]"
  using upt_add_eq_append[of h "h + m" k] by (simp add: add.assoc)

lemma length_seeded: "length (seeded clk m ts h) = length ts * m"
  by (induction ts arbitrary: h) auto

lemma range_tokens_fits:
  "Clients s = Some ch \<Longrightarrow> 0 \<le> Threads s \<Longrightarrow> Threads s + 1 < 2 ^ 63 \<Longrightarrow>
   \<forall>t\<in>set ts. rejected (ug t) \<longrightarrow> 10 \<le> length t \<Longrightarrow>
   length (buf ch) + length (accepted ug ts) * nat (Threads s + 1) \<le> cap ch \<Longrightarrow>
   range_tokens ug clk ts s =
     Returned (s\<lparr>UsersGet := UsersGet s @ ts,
                 Log := Log s @ warn_lines ug ts,
                 heap := heap s @ seeded clk (nat (Threads s + 1)) (accepted ug ts) (length (heap s)),
                 Clients := Some (ch\<lparr>buf := buf ch @
                    [length (heap s)..<length (heap s) + length (accepted ug ts) * nat (Threads s + 1)]\<rparr>)\<rparr>)"
proof (induction ts arbitrary: s ch)
  case Nil
  then show ?case by (simp add: accepted_def warn_lines_def)
next
  case (Cons t ts)
  let ?s1 = "s\<lparr>UsersGet := UsersGet s @ [t]\<rparr>"
  let ?m = "nat (Threads s + 1)"
  show ?case
  proof (cases "rejected (ug t)")
    case True
    with Cons.prems have "10 \<le> length t" by simp
    then have sl: "slice10 t = Some (take 10 t)" by (simp add: slice10_def)
    let ?s2 = "log_call WARN ''Failed to validate token %s[..]: %s'' [Str (take 10 t), Err (the (ug t))] ?s1"
    have step: "range_tokens ug clk (t # ts) s = range_tokens ug clk ts ?s2"
      using True sl by (simp add: Let_def)
    have "range_tokens ug clk ts ?s2 = Returned (?s2\<lparr>UsersGet := UsersGet ?s2 @ ts,
                 Log := Log ?s2 @ warn_lines ug ts,
                 heap := heap ?s2 @ seeded clk (nat (Threads ?s2 + 1)) (accepted ug ts) (length (heap ?s2)),
                 Clients := Some (ch\<lparr>buf := buf ch @
                    [length (heap ?s2)..<length (heap ?s2) + length (accepted ug ts) * nat (Threads ?s2 + 1)]\<rparr>)\<rparr>)"
      using Cons.prems True by (intro Cons.IH) (auto simp: log_call_def accepted_def)
    then show ?thesis
      unfolding step using True by (simp add: log_call_def accepted_def warn_lines_def)
  next
    case False
    let ?h = "length (heap s)"
    let ?s2 = "?s1\<lparr>heap := heap ?s1 @ map (new_wrapper clk t) [length (heap ?s1)..<length (heap ?s1) + ?m],
                 Clients := Some (ch\<lparr>buf := buf ch @ [length (heap ?s1)..<length (heap ?s1) + ?m]\<rparr>)\<rparr>"
    have acc: "accepted ug (t # ts) = t # accepted ug ts"
      using False by (simp add: accepted_def)
    have "send_clients clk t 0 ?s1 = Returned ?s2"
      using Cons.prems acc by (intro send_clients_fits) auto
    then have step: "range_tokens ug clk (t # ts) s = range_tokens ug clk ts ?s2"
      using False by (simp add: Let_def)
    let ?ch2 = "ch\<lparr>buf := buf ch @ [?h..<?h + ?m]\<rparr>"
    have "range_tokens ug clk ts ?s2 = Returned (?s2\<lparr>UsersGet := UsersGet ?s2 @ ts,
                 Log := Log ?s2 @ warn_lines ug ts,
                 heap := heap ?s2 @ seeded clk (nat (Threads ?s2 + 1)) (accepted ug ts) (length (heap ?s2)),
                 Clients := Some (?ch2\<lparr>buf := buf ?ch2 @
                    [length (heap ?s2)..<length (heap ?s2) + length (accepted ug ts) * nat (Threads ?s2 + 1)]\<rparr>)\<rparr>)"
      using Cons.prems acc by (intro Cons.IH) auto
    then show ?thesis
      unfolding step using False acc
      by (simp add: warn_lines_def upt_glue)
  qed
qed

lemma range_tokens_stuck:
  "Clients s = Some ch \<Longrightarrow> 0 \<le> Threads s \<Longrightarrow> Threads s + 1 < 2 ^ 63 \<Longrightarrow>
   length (buf ch) \<le> cap ch \<Longrightarrow>
   (\<exists>t\<in>set ts. rejected (ug t) \<and> length t < 10) \<or>
   cap ch < length (buf ch) + length (accepted ug ts) * nat (Threads s + 1) \<Longrightarrow>
   (\<exists>s'. range_tokens ug clk ts s = Blocked s') \<or>
   ((\<exists>s'. range_tokens ug clk ts s = Panic SliceBoundsOutOfRange s') \<and>
    (\<exists>t\<in>set ts. rejected (ug t) \<and> length t < 10))"
proof (induction ts arbitrary: s ch)
  case Nil
  then show ?case by (simp add: accepted_def)
next
  case (Cons t ts)
  let ?s1 = "s\<lparr>UsersGet := UsersGet s @ [t]\<rparr>"
  let ?m = "nat (Threads s + 1)"
  show ?case
  proof (cases "rejected (ug t)")
    case True
    show ?thesis
    proof (cases "length t < 10")
      case short: True
      then have "\<exists>s'. range_tokens ug clk (t # ts) s = Panic SliceBoundsOutOfRange s'"
        using True by (simp add: Let_def slice10_def)
      with True short show ?thesis by simp
    next
      case False
      then have sl: "slice10 t = Some (take 10 t)" by (simp add: slice10_def)
      let ?s2 = "log_call WARN ''Failed to validate token %s[..]: %s'' [Str (take 10 t), Err (the (ug t))] ?s1"
      have step: "range_tokens ug clk (t # ts) s = range_tokens ug clk ts ?s2"
        using True sl by (simp add: Let_def)
      have "(\<exists>s'. range_tokens ug clk ts ?s2 = Blocked s') \<or>
            ((\<exists>s'. range_tokens ug clk ts ?s2 = Panic SliceBoundsOutOfRange s') \<and>
             (\<exists>t\<in>set ts. rejected (ug t) \<and> length t < 10))"
        using Cons.prems True False
        by (intro Cons.IH[where ch = ch]) (auto simp: log_call_def accepted_def)
      then show ?thesis unfolding step by auto
    qed
  next
    case False
    have acc: "accepted ug (t # ts) = t # accepted ug ts"
      using False by (simp add: accepted_def)
    show ?thesis
    proof (cases "cap ch < length (buf ch) + ?m")
      case True
      have "\<exists>s'. send_clients clk t 0 ?s1 = Blocked s'"
        using Cons.prems True by (intro send_clients_blocks[where ch = ch and n = ?m]) auto
      then show ?thesis using False by (auto simp: Let_def)
    next
      case fits: False
      let ?h = "length (heap s)"
      let ?ch2 = "ch\<lparr>buf := buf ch @ [?h..<?h + ?m]\<rparr>"
      let ?s2 = "?s1\<lparr>heap := heap ?s1 @ map (new_wrapper clk t) [length (heap ?s1)..<length (heap ?s1) + ?m],
                 Clients := Some (ch\<lparr>buf := buf ch @ [length (heap ?s1)..<length (heap ?s1) + ?m]\<rparr>)\<rparr>"
      have "send_clients clk t 0 ?s1 = Returned ?s2"
        using Cons.prems fits by (intro send_clients_fits) auto
      then have step: "range_tokens ug clk (t # ts) s = range_tokens ug clk ts ?s2"
        using False by (simp add: Let_def)
      have "(\<exists>s'. range_tokens ug clk ts ?s2 = Blocked s') \<or>
            ((\<exists>s'. range_tokens ug clk ts ?s2 = Panic SliceBoundsOutOfRange s') \<and>
             (\<exists>t\<in>set ts. rejected (ug t) \<and> length t < 10))"
        using Cons.prems False fits acc
        by (intro Cons.IH[where ch = ?ch2]) auto
      then show ?thesis unfolding step by auto
    qed
  qed
qed

lemma chanSize_eq:
  "in_range s \<Longrightarrow>
   make_chan (wrap64 (Threads s * (int (length (GitHubAccessTokens s)) + 1))) =
     (if allocatable s then Some \<lparr>cap = chan_size s, buf = []\<rparr> else None)"
proof -
  assume r: "in_range s"
  then have nn: "0 \<le> Threads s * (int (length (GitHubAccessTokens s)) + 1)"
    by (simp add: in_range_def)
  from r have ub: "Threads s * (int (length (GitHubAccessTokens s)) + 1) < 2 ^ 63"
    by (simp add: in_range_def)
  from nn have lb: "- (2 ^ 63) \<le> Threads s * (int (length (GitHubAccessTokens s)) + 1)"
    by (rule order_trans[rotated]) simp
  have "wrap64 (Threads s * (int (length (GitHubAccessTokens s)) + 1)) =
      Threads s * (int (length (GitHubAccessTokens s)) + 1)"
    using lb ub by (rule wrap64_id)
  moreover have "nat (Threads s * (int (length (GitHubAccessTokens s)) + 1)) = chan_size s"
    using r by (simp add: chan_size_def in_range_def nat_mult_distrib nat_add_distrib)
  ultimately show ?thesis using nn by (auto simp: make_chan_def allocatable_def)
qed

lemma threads_bound:
  assumes "in_range s" "GitHubAccessTokens s \<noteq> []"
  shows "Threads s + 1 < 2 ^ 63"
proof -
  from assms(2) have "1 \<le> int (length (GitHubAccessTokens s))"
    by (cases "GitHubAccessTokens s") auto
  then have "Threads s * 2 \<le> Threads s * (int (length (GitHubAccessTokens s)) + 1)"
    using assms(1) by (intro mult_left_mono) (auto simp: in_range_def)
  with assms(1) show ?thesis by (simp add: in_range_def)
qed

lemma init_too_big:
  assumes "Local s = []" "in_range s" "\<not> allocatable s"
  shows "InitGitHubClients ug clk s = Panic MakechanSizeOutOfRange s"
  using assms(1,3) chanSize_eq[OF assms(2)] by (simp add: InitGitHubClients_def Let_def)

lemma init_fits:
  assumes "Local s = []" "in_range s" "allocatable s" "loggable ug (GitHubAccessTokens s)"
    "pool_size ug s \<le> chan_size s"
  shows "InitGitHubClients ug clk s =
     (if pool_size ug s = 0
      then Exit (log_call FATAL ''No valid GitHub tokens provided. Quitting!'' [] (seeded_session ug clk s))
      else Returned (seeded_session ug clk s))"
proof (cases "GitHubAccessTokens s = []")
  case True
  then show ?thesis
    using assms chanSize_eq[OF assms(2)]
    by (simp add: InitGitHubClients_def Let_def chan_len_def Log_Fatal_def seeded_session_def
        pool_size_def accepted_def warn_lines_def log_call_def)
next
  case False
  let ?ch = "\<lparr>cap = chan_size s, buf = []\<rparr>"
  let ?s1 = "s\<lparr>Clients := Some ?ch, ExhaustedClients := Some ?ch\<rparr>"
  have tb: "Threads s + 1 < 2 ^ 63" using threads_bound[OF assms(2) False] .
  have "range_tokens ug clk (GitHubAccessTokens s) ?s1 =
     Returned (?s1\<lparr>UsersGet := UsersGet ?s1 @ GitHubAccessTokens s,
                 Log := Log ?s1 @ warn_lines ug (GitHubAccessTokens s),
                 heap := heap ?s1 @ seeded clk (nat (Threads ?s1 + 1)) (accepted ug (GitHubAccessTokens s)) (length (heap ?s1)),
                 Clients := Some (?ch\<lparr>buf := buf ?ch @
                    [length (heap ?s1)..<length (heap ?s1) + length (accepted ug (GitHubAccessTokens s)) * nat (Threads ?s1 + 1)]\<rparr>)\<rparr>)"
    using assms tb
    by (intro range_tokens_fits) (auto simp: in_range_def loggable_def list_all_iff pool_size_def)
  moreover have "0 < nat (Threads s + 1)" using assms(2) by (simp add: in_range_def)
  ultimately show ?thesis
    using assms(1,3) chanSize_eq[OF assms(2)]
    by (simp add: InitGitHubClients_def Let_def chan_len_def Log_Fatal_def seeded_session_def
        pool_size_def log_call_def)
qed

lemma init_stuck:
  assumes "Local s = []" "in_range s" "allocatable s"
    "\<not> loggable ug (GitHubAccessTokens s) \<or> chan_size s < pool_size ug s"
  shows "(\<exists>s'. InitGitHubClients ug clk s = Blocked s') \<or>
         ((\<exists>s'. InitGitHubClients ug clk s = Panic SliceBoundsOutOfRange s') \<and>
          \<not> loggable ug (GitHubAccessTokens s))"
proof -
  let ?ch = "\<lparr>cap = chan_size s, buf = []\<rparr>"
  let ?s1 = "s\<lparr>Clients := Some ?ch, ExhaustedClients := Some ?ch\<rparr>"
  from assms(4) have ne: "GitHubAccessTokens s \<noteq> []"
    by (auto simp: loggable_def pool_size_def accepted_def)
  have tb: "Threads s + 1 < 2 ^ 63" using threads_bound[OF assms(2) ne] .
  have "(\<exists>s'. range_tokens ug clk (GitHubAccessTokens s) ?s1 = Blocked s') \<or>
        ((\<exists>s'. range_tokens ug clk (GitHubAccessTokens s) ?s1 = Panic SliceBoundsOutOfRange s') \<and>
         (\<exists>t\<in>set (GitHubAccessTokens s). rejected (ug t) \<and> length t < 10))"
    using assms tb
    by (intro range_tokens_stuck[where ch = ?ch])
       (auto simp: in_range_def loggable_def list_all_iff pool_size_def)
  then show ?thesis
    using assms(1,3) chanSize_eq[OF assms(2)]
    by (auto simp: InitGitHubClients_def Let_def loggable_def list_all_iff)
qed

lemma init_Returned:
  assumes "Local s = []" "in_range s" "InitGitHubClients ug clk s = Returned s'"
  shows "allocatable s \<and> loggable ug (GitHubAccessTokens s) \<and> pool_size ug s \<le> chan_size s \<and>
         0 < pool_size ug s \<and> s' = seeded_session ug clk s"
proof -
  have al: "allocatable s"
    using init_too_big[OF assms(1,2), of ug clk] assms(3) by auto
  have ok: "loggable ug (GitHubAccessTokens s) \<and> pool_size ug s \<le> chan_size s"
    using init_stuck[OF assms(1,2) al, of ug clk] assms(3) by fastforce
  then show ?thesis
    using init_fits[OF assms(1,2) al, of ug clk] assms(3) al by (auto split: if_splits)
qed

lemma init_Exit:
  assumes "Local s = []" "in_range s" "InitGitHubClients ug clk s = Exit s'"
  shows "allocatable s \<and> loggable ug (GitHubAccessTokens s) \<and> pool_size ug s = 0 \<and>
         s' = log_call FATAL ''No valid GitHub tokens provided. Quitting!'' [] (seeded_session ug clk s)"
proof -
  have al: "allocatable s"
    using init_too_big[OF assms(1,2), of ug clk] assms(3) by auto
  have ok: "loggable ug (GitHubAccessTokens s) \<and> pool_size ug s \<le> chan_size s"
    using init_stuck[OF assms(1,2) al, of ug clk] assms(3) by fastforce
  then show ?thesis
    using init_fits[OF assms(1,2) al, of ug clk] assms(3) al by (auto split: if_splits)
qed

text \<open>The loop blocks as soon as it has more wrappers to send than the channel holds.\<close>

lemma init_blocks:
  assumes "Local s = []" "in_range s" "allocatable s" "loggable ug (GitHubAccessTokens s)"
    "chan_size s < pool_size ug s"
  shows "\<exists>s'. InitGitHubClients ug clk s = Blocked s'"
  using init_stuck[OF assms(1-3), of ug clk] assms(4,5) by auto

lemma seeded_nth:
  "i < length ts * m \<Longrightarrow> \<exists>t\<in>set ts. seeded clk m ts h ! i = new_wrapper clk t (h + i)"
proof (induction ts arbitrary: h i)
  case Nil
  then show ?case by simp
next
  case (Cons t ts)
  show ?case
  proof (cases "i < m")
    case True
    then show ?thesis by (simp add: nth_append)
  next
    case False
    with Cons.prems have "i - m < length ts * m" by simp
    from Cons.IH[OF this, of "h + m"] False show ?thesis
      by (auto simp: nth_append)
  qed
qed

lemma seeded_session_handle:
  assumes "p \<in> set (qbuf (Clients (seeded_session ug clk s)))"
  shows "p < length (heap (seeded_session ug clk s)) \<and>
         (\<exists>t\<in>set (accepted ug (GitHubAccessTokens s)).
            heap (seeded_session ug clk s) ! p = new_wrapper clk t p)"
proof -
  let ?h = "length (heap s)"
  let ?ts = "accepted ug (GitHubAccessTokens s)"
  let ?m = "nat (Threads s + 1)"
  from assms have p: "?h \<le> p" "p - ?h < length ?ts * ?m"
    by (auto simp: seeded_session_def qbuf_def pool_size_def)
  from seeded_nth[OF p(2), of clk ?h] p(1)
  have "\<exists>t\<in>set ?ts. seeded clk ?m ?ts ?h ! (p - ?h) = new_wrapper clk t p" by simp
  with p show ?thesis
    by (auto simp: seeded_session_def nth_append length_seeded)
qed

lemma example_accepted:
  "accepted Users_Get_ghp [''ghp_aaaaaaaaaaaa'', ''bad_token_0000''] = [''ghp_aaaaaaaaaaaa'']"
  "accepted Users_Get_timeout ts = ts"
  "accepted Users_Get_401 ts = []"
  by (simp_all add: accepted_def Users_Get_ghp_def Users_Get_timeout_def Users_Get_401_def rejected_def)

section \<open>Channels and goroutines\<close>

lemma chan_send_room: "chan_send c p \<noteq> None \<longleftrightarrow> has_room c"
  by (simp add: chan_send_def has_room_def split: option.splits)

lemma chan_send_Some:
  "chan_send c p = Some ch' \<Longrightarrow> qbuf (Some ch') = qbuf c @ [p] \<and> cap ch' = cap (the c)"
  by (auto simp: chan_send_def qbuf_def split: option.splits if_splits)

lemma deref_frame:
  "deref (s\<lparr>Clients := c\<rparr>) p = deref s p"
  "deref (s\<lparr>ExhaustedClients := c\<rparr>) p = deref s p"
  "deref (log_call lv fmt args s) p = deref s p"
  by (simp_all add: deref_def log_call_def)

lemma list_ex_update: "w < length xs \<Longrightarrow> P x \<Longrightarrow> list_ex P (xs[w := x])"
  by (auto simp: list_ex_iff intro: set_update_memI)

lemma chan_recv_Some: "chan_recv c = Some (p, ch) \<Longrightarrow> qbuf c = p # qbuf (Some ch)"
  by (auto simp: chan_recv_def qbuf_def split: option.splits list.splits)

lemma send_to_queued: "send_to q p s = Some s' \<Longrightarrow> queued s' = add_mset p (queued s)"
  by (cases q) (auto simp: send_to_def queued_def dest!: chan_send_Some)

lemma select_queued:
  "can_proceed s c \<Longrightarrow> GetClient_select c now s = (pc', s') \<Longrightarrow>
   queued s' + mset (holds pc') = queued s"
proof (cases c)
  case CaseClients
  assume a: "can_proceed s c" "GetClient_select c now s = (pc', s')"
  with CaseClients obtain p ch where r: "chan_recv (Clients s) = Some (p, ch)"
    by (auto simp: can_proceed_def)
  from chan_recv_Some[OF r] a(2) r CaseClients show ?thesis
    by (auto simp: GetClient_select_def queued_def Let_def log_call_def deref_frame
        split: option.splits)
next
  case CaseExhaustedClients
  assume a: "can_proceed s c" "GetClient_select c now s = (pc', s')"
  with CaseExhaustedClients obtain p ch where r: "chan_recv (ExhaustedClients s) = Some (p, ch)"
    by (auto simp: can_proceed_def)
  from chan_recv_Some[OF r] a(2) r CaseExhaustedClients show ?thesis
    by (auto simp: GetClient_select_def queued_def Let_def log_call_def deref_frame
        split: option.splits)
next
  case CaseDefault
  assume "GetClient_select c now s = (pc', s')"
  with CaseDefault show ?thesis
    by (auto simp: GetClient_select_def queued_def log_call_def)
qed

lemma wake_queued:
  "GetClient_wake p now s = (pc', s') \<Longrightarrow> queued s' = queued s \<and> holds pc' = [p]"
  by (auto simp: GetClient_wake_def queued_def log_call_def split: option.splits)

lemma act_queued:
  "act a pc now s = Some (pc', s') \<Longrightarrow> queued s' + mset (holds pc') = queued s + mset (holds pc)"
proof (induction a pc now s rule: act.induct)
  case (2 c now s)
  then show ?case using select_queued[of s c now pc' s'] by (auto split: if_splits)
next
  case (3 p t now s)
  then show ?case using wake_queued[of p now s pc' s'] by (auto split: if_splits)
next
  case (5 p q k now s)
  then show ?case using send_to_queued[of q p s] by (auto split: option.splits cont.splits)
next
  case (6 t p now s)
  then show ?case by (auto simp: queued_def split: option.splits)
next
  case (7 p now s)
  then show ?case by (auto split: option.splits)
qed (auto split: if_splits)

lemma on_loan_update:
  "w < length xs \<Longrightarrow>
   mset (concat (map holds (xs[w := y]))) + mset (holds (xs ! w)) =
   mset (concat (map holds xs)) + mset (holds y)"
proof (induction xs arbitrary: w)
  case Nil
  then show ?case by simp
next
  case (Cons x xs)
  then show ?case by (cases w) auto
qed

lemma step_handles: "step e \<sigma> = Some \<sigma>' \<Longrightarrow> handles \<sigma>' = handles \<sigma>"
proof (cases e)
  case (Tick d)
  assume "step e \<sigma> = Some \<sigma>'"
  with Tick show ?thesis by (auto simp: handles_def on_loan_def split: if_splits)
next
  case (Worker w a)
  assume s: "step e \<sigma> = Some \<sigma>'"
  with Worker obtain pc' s' where
    w: "w < length (pcs \<sigma>)" and
    a: "act a (pcs \<sigma> ! w) (clock \<sigma>) (sess \<sigma>) = Some (pc', s')" and
    \<sigma>': "\<sigma>' = \<sigma>\<lparr>sess := s', pcs := (pcs \<sigma>)[w := pc']\<rparr>"
    by (auto split: if_splits option.splits)
  from act_queued[OF a] on_loan_update[OF w, of pc']
  have "queued s' + mset (concat (map holds ((pcs \<sigma>)[w := pc']))) + mset (holds (pcs \<sigma> ! w)) + mset (holds pc') =
        queued (sess \<sigma>) + mset (concat (map holds (pcs \<sigma>))) + mset (holds (pcs \<sigma> ! w)) + mset (holds pc')"
    by (simp add: ac_simps)
  then show ?thesis
    unfolding \<sigma>' by (simp add: handles_def on_loan_def queued_def)
qed

lemma run_handles: "run es \<sigma> = Some \<sigma>' \<Longrightarrow> handles \<sigma>' = handles \<sigma>"
proof (induction es arbitrary: \<sigma>)
  case Nil
  then show ?case by simp
next
  case (Cons e es)
  then show ?case by (auto split: option.splits dest: step_handles)
qed

lemma start_handles: "handles (start n s t) = queued s"
  by (simp add: handles_def start_def on_loan_def queued_def)

text \<open>Once \<^verbatim>\<open>InitGitHubClients\<close> has returned, the channels are large enough for all
  handles: a send of \<^verbatim>\<open>FreeClient\<close> that a goroutine is waiting at can proceed.\<close>

lemma chan_send_cap: "chan_send c p = Some ch \<Longrightarrow> map_option cap c = Some (cap ch)"
  by (auto simp: chan_send_def split: option.splits if_splits)

lemma chan_recv_cap: "chan_recv c = Some (p, ch) \<Longrightarrow> map_option cap c = Some (cap ch)"
  by (auto simp: chan_recv_def split: option.splits list.splits)

lemma send_to_caps: "send_to q p s = Some s' \<Longrightarrow> caps s' = caps s"
  by (cases q) (auto simp: send_to_def caps_def dest: chan_send_cap)

lemma select_caps: "GetClient_select c now s = (pc', s') \<Longrightarrow> caps s' = caps s"
  by (cases c)
     (auto simp: GetClient_select_def caps_def Let_def log_call_def
       split: option.splits dest!: chan_recv_cap)

lemma wake_caps: "GetClient_wake p now s = (pc', s') \<Longrightarrow> caps s' = caps s"
  by (auto simp: GetClient_wake_def caps_def log_call_def split: option.splits)

lemma act_caps: "act a pc now s = Some (pc', s') \<Longrightarrow> caps s' = caps s"
proof (induction a pc now s rule: act.induct)
  case (2 c now s)
  then show ?case using select_caps[of c now s pc' s'] by (auto split: if_splits)
next
  case (3 p t now s)
  then show ?case using wake_caps[of p now s pc' s'] by (auto split: if_splits)
next
  case (5 p q k now s)
  then show ?case using send_to_caps[of q p s] by (auto split: option.splits)
next
  case (6 t p now s)
  then show ?case by (auto simp: caps_def split: option.splits)
next
  case (7 p now s)
  then show ?case by (auto split: option.splits)
qed (auto split: if_splits)

lemma step_caps: "step e \<sigma> = Some \<sigma>' \<Longrightarrow> caps (sess \<sigma>') = caps (sess \<sigma>)"
  by (cases e) (auto split: if_splits option.splits dest: act_caps)

lemma run_caps: "run es \<sigma> = Some \<sigma>' \<Longrightarrow> caps (sess \<sigma>') = caps (sess \<sigma>)"
proof (induction es arbitrary: \<sigma>)
  case Nil
  then show ?case by simp
next
  case (Cons e es)
  then show ?case by (auto split: option.splits dest: step_caps)
qed

lemma holds_on_loan: "w < length xs \<Longrightarrow> p \<in> set (holds (xs ! w)) \<Longrightarrow> p \<in> set (concat (map holds xs))"
  by (auto simp: in_set_conv_nth intro!: bexI[of _ "xs ! w"])

lemma sends_never_block:
  assumes "Local s = []" "in_range s" "InitGitHubClients ug clk s = Returned s0"
    "run es (start n s0 t0) = Some \<sigma>" "\<not> crashed \<sigma>"
    "w < length (pcs \<sigma>)" "pcs \<sigma> ! w = Freeing p q k"
  shows "\<exists>\<sigma>'. step (Worker w Send) \<sigma> = Some \<sigma>'"
proof -
  from init_Returned[OF assms(1-3)] have s0: "s0 = seeded_session ug clk s"
    and fit: "pool_size ug s \<le> chan_size s" by simp_all
  have "caps (sess \<sigma>) = caps s0" using run_caps[OF assms(4)] by (simp add: start_def)
  then have c: "caps (sess \<sigma>) = (Some (chan_size s), Some (chan_size s))"
    unfolding s0 by (simp add: caps_def seeded_session_def)
  have "handles \<sigma> = queued s0" using run_handles[OF assms(4)] by (simp add: start_handles)
  then have "size (handles \<sigma>) = pool_size ug s"
    unfolding s0 by (simp add: queued_def seeded_session_def qbuf_def)
  then have sz: "length (qbuf (Clients (sess \<sigma>))) + length (qbuf (ExhaustedClients (sess \<sigma>))) +
      length (on_loan \<sigma>) = pool_size ug s"
    by (simp add: handles_def)
  have "p \<in> set (on_loan \<sigma>)"
    unfolding on_loan_def using holds_on_loan[OF assms(6), of p] assms(7) by simp
  from length_pos_if_in_set[OF this] sz fit
  have room: "length (qbuf (Clients (sess \<sigma>))) < chan_size s"
    "length (qbuf (ExhaustedClients (sess \<sigma>))) < chan_size s"
    by linarith+
  from c obtain c1 c2 where ch: "Clients (sess \<sigma>) = Some c1" "ExhaustedClients (sess \<sigma>) = Some c2"
    "cap c1 = chan_size s" "cap c2 = chan_size s"
    by (auto simp: caps_def)
  with room have "send_to q p (sess \<sigma>) \<noteq> None"
    by (cases q) (auto simp: send_to_def chan_send_def qbuf_def)
  then show ?thesis
    using assms(5-7) by (auto split: option.splits)
qed

section \<open>What the log depends on\<close>





























section \<open>The claims\<close>

text \<open>
  C1. Both channels are made with capacity \<open>Threads * (len(tokens) + 1)\<close>, and every send
  is to complete without blocking behind a full channel; seeding the initial handles is
  never to block. The loop sends \<open>Threads + 1\<close> handles for each credential that is not
  skipped, which is more than the capacity as soon as more credentials are kept than
  there are threads. With one thread and three credentials that all validate, the
  channels hold four addresses and six are to be sent: the fifth wrapper is built and its
  send blocks, with nothing there to receive.
\<close>

theorem C1_seeding_blocks:
  "(case InitGitHubClients Users_Get_ok clock0
           (NewSession 1 [] [''ghp_aaaaaaaaaaaa'', ''ghp_bbbbbbbbbbbb'', ''ghp_cccccccccccc'']) of
      Blocked s' \<Rightarrow>
        Clients s' = Some \<lparr>cap = 4, buf = [0, 1, 2, 3]\<rparr> \<and>
        map Token (heap s') =
          [''ghp_aaaaaaaaaaaa'', ''ghp_aaaaaaaaaaaa'', ''ghp_bbbbbbbbbbbb'', ''ghp_bbbbbbbbbbbb'',
           ''ghp_cccccccccccc'']
    | _ \<Rightarrow> False)"
  by (simp add: InitGitHubClients_def NewSession_def make_chan_def maxChan_def wrap64_small
      rejected_def send_clients.simps chan_send_def new_wrapper_def Let_def Users_Get_ok_def)

text \<open>
  C2, as the claim states it, fails. A credential is skipped only when the error of the
  validation call is a \<^verbatim>\<open>*github.ErrorResponse\<close>. With the remote service
  unreachable the call fails with another error, the \<^verbatim>\<open>continue\<close> is not reached, and
  \<open>Threads + 1\<close> handles are built for the credential.
\<close>

theorem C2_counterexample:
  "InitGitHubClients Users_Get_timeout clock0 (NewSession 2 [] [''ghp_bbbbbbbbbbbb'']) =
     Returned (seeded_session Users_Get_timeout clock0 (NewSession 2 [] [''ghp_bbbbbbbbbbbb''])) \<and>
   map Token (heap (seeded_session Users_Get_timeout clock0 (NewSession 2 [] [''ghp_bbbbbbbbbbbb'']))) =
     [''ghp_bbbbbbbbbbbb'', ''ghp_bbbbbbbbbbbb'', ''ghp_bbbbbbbbbbbb''] \<and>
   Users_Get_timeout ''ghp_bbbbbbbbbbbb'' = Some (OtherError ''dial tcp: i/o timeout'')"
proof -
  let ?s = "NewSession 2 [] [''ghp_bbbbbbbbbbbb'']"
  have "InitGitHubClients Users_Get_timeout clock0 ?s =
      Returned (seeded_session Users_Get_timeout clock0 ?s)"
    using init_fits[of ?s Users_Get_timeout clock0]
    by (simp add: NewSession_def in_range_def loggable_def pool_size_def chan_size_def allocatable_def maxChan_def
        example_accepted Users_Get_timeout_def rejected_def)
  moreover have "map Token (heap (seeded_session Users_Get_timeout clock0 ?s)) =
      [''ghp_bbbbbbbbbbbb'', ''ghp_bbbbbbbbbbbb'', ''ghp_bbbbbbbbbbbb'']"
    by (simp add: seeded_session_def example_accepted NewSession_def upt_rec new_wrapper_def)
  ultimately show ?thesis by (simp add: Users_Get_timeout_def)
qed

text \<open>
  C2, amended. A credential whose validation call fails with an \<^verbatim>\<open>ErrorResponse\<close>, and
  whose token has ten bytes or more, is skipped: the loop logs the warning, builds no
  wrapper and goes on with the remaining credentials. In the pool that
  \<^verbatim>\<open>InitGitHubClients\<close> returns, no handle is backed by a credential whose validation
  call returned an \<^verbatim>\<open>ErrorResponse\<close>.
\<close>

theorem C2_rejected_skipped:
  "(rejected (ug t) \<and> 10 \<le> length t \<longrightarrow>
      range_tokens ug clk (t # ts) s0 =
        range_tokens ug clk ts
          (log_call WARN ''Failed to validate token %s[..]: %s'' [Str (take 10 t), Err (the (ug t))]
             (s0\<lparr>UsersGet := UsersGet s0 @ [t]\<rparr>))) \<and>
   (Local s = [] \<and> in_range s \<and> InitGitHubClients ug clk s = Returned s' \<longrightarrow>
      (\<forall>p\<in>set (qbuf (Clients s')).
         p < length (heap s') \<and> \<not> rejected (ug (Token (heap s' ! p)))))"
proof (intro conjI impI)
  assume "rejected (ug t) \<and> 10 \<le> length t"
  then show "range_tokens ug clk (t # ts) s0 =
        range_tokens ug clk ts
          (log_call WARN ''Failed to validate token %s[..]: %s'' [Str (take 10 t), Err (the (ug t))]
             (s0\<lparr>UsersGet := UsersGet s0 @ [t]\<rparr>))"
    by (simp add: Let_def slice10_def)
next
  assume a: "Local s = [] \<and> in_range s \<and> InitGitHubClients ug clk s = Returned s'"
  then have s': "s' = seeded_session ug clk s"
    using init_Returned[of s ug clk s'] by simp
  show "\<forall>p\<in>set (qbuf (Clients s')).
         p < length (heap s') \<and> \<not> rejected (ug (Token (heap s' ! p)))"
  proof
    fix p
    assume "p \<in> set (qbuf (Clients s'))"
    with seeded_session_handle[of p ug clk s]
    show "p < length (heap s') \<and> \<not> rejected (ug (Token (heap s' ! p)))"
      unfolding s' by (auto simp: accepted_def new_wrapper_def)
  qed
qed

theorem C2_rejected_skipped_witness:
  "rejected (Users_Get_ghp ''bad_token_0000'') \<and> 10 \<le> length ''bad_token_0000'' \<and>
   range_tokens Users_Get_ghp clock0 [''bad_token_0000'', ''ghp_aaaaaaaaaaaa''] (NewSession 1 [] []) =
     range_tokens Users_Get_ghp clock0 [''ghp_aaaaaaaaaaaa'']
       (log_call WARN ''Failed to validate token %s[..]: %s''
          [Str ''bad_token_'', Err (ErrorResponse ''401 Bad credentials'')]
          ((NewSession 1 [] [])\<lparr>UsersGet := [''bad_token_0000'']\<rparr>)) \<and>
   Local (NewSession 1 [] [''bad_token_0000'', ''ghp_aaaaaaaaaaaa'']) = [] \<and>
   in_range (NewSession 1 [] [''bad_token_0000'', ''ghp_aaaaaaaaaaaa'']) \<and>
   InitGitHubClients Users_Get_ghp clock0 (NewSession 1 [] [''bad_token_0000'', ''ghp_aaaaaaaaaaaa'']) =
     Returned (seeded_session Users_Get_ghp clock0
                (NewSession 1 [] [''bad_token_0000'', ''ghp_aaaaaaaaaaaa''])) \<and>
   qbuf (Clients (seeded_session Users_Get_ghp clock0
                (NewSession 1 [] [''bad_token_0000'', ''ghp_aaaaaaaaaaaa'']))) = [0, 1] \<and>
   \<not> rejected (Users_Get_ghp (Token (heap (seeded_session Users_Get_ghp clock0
                (NewSession 1 [] [''bad_token_0000'', ''ghp_aaaaaaaaaaaa''])) ! 0)))"
proof -
  let ?s = "NewSession 1 [] [''bad_token_0000'', ''ghp_aaaaaaaaaaaa'']"
  let ?s' = "seeded_session Users_Get_ghp clock0 ?s"
  have r: "rejected (Users_Get_ghp ''bad_token_0000'') \<and> 10 \<le> length ''bad_token_0000''"
    by (simp add: Users_Get_ghp_def rejected_def)
  have acc: "accepted Users_Get_ghp [''bad_token_0000'', ''ghp_aaaaaaaaaaaa''] = [''ghp_aaaaaaaaaaaa'']"
    by (simp add: accepted_def Users_Get_ghp_def rejected_def)
  have i: "Local ?s = []" "in_range ?s"
    by (simp_all add: NewSession_def in_range_def)
  have ret: "InitGitHubClients Users_Get_ghp clock0 ?s = Returned ?s'"
    using init_fits[of ?s Users_Get_ghp clock0] i
    by (simp add: NewSession_def loggable_def pool_size_def chan_size_def allocatable_def maxChan_def acc
        Users_Get_ghp_def rejected_def)
  have q: "qbuf (Clients ?s') = [0, 1]"
    by (simp add: seeded_session_def qbuf_def pool_size_def acc NewSession_def upt_rec)
  note inst = C2_rejected_skipped[of Users_Get_ghp "''bad_token_0000''" clock0
      "[''ghp_aaaaaaaaaaaa'']" "NewSession 1 [] []" ?s ?s']
  from inst r have 1: "range_tokens Users_Get_ghp clock0 [''bad_token_0000'', ''ghp_aaaaaaaaaaaa''] (NewSession 1 [] []) =
     range_tokens Users_Get_ghp clock0 [''ghp_aaaaaaaaaaaa'']
       (log_call WARN ''Failed to validate token %s[..]: %s''
          [Str ''bad_token_'', Err (ErrorResponse ''401 Bad credentials'')]
          ((NewSession 1 [] [])\<lparr>UsersGet := [''bad_token_0000'']\<rparr>))"
    by (simp add: Users_Get_ghp_def NewSession_def)
  from inst i ret q have 2: "\<not> rejected (Users_Get_ghp (Token (heap ?s' ! 0)))"
    by simp
  from r 1 i ret q 2 show ?thesis by simp
qed

text \<open>
  C3. \<^verbatim>\<open>GetClient\<close> is to take from \<^verbatim>\<open>Clients\<close> whenever it has an entry, and never
  from \<^verbatim>\<open>ExhaustedClients\<close> then. The two receives are cases of one \<^verbatim>\<open>select\<close>, which
  has no order among the cases that can proceed. With one handle in each channel both
  cases can proceed, and the second takes the exhausted handle and sleeps until second 100
  (logging that all tokens are exhausted) while \<^verbatim>\<open>Clients\<close> still holds its entry.
\<close>

theorem C3_select_takes_exhausted:
  "can_proceed example_pool CaseClients \<and>
   can_proceed example_pool CaseExhaustedClients \<and>
   qbuf (Clients example_pool) = [0] \<and>
   fst (GetClient_select CaseExhaustedClients (50 * Second) example_pool) =
     Sleeping 1 (100 * Second) \<and>
   qbuf (Clients (snd (GetClient_select CaseExhaustedClients (50 * Second) example_pool))) = [0] \<and>
   qbuf (ExhaustedClients (snd (GetClient_select CaseExhaustedClients (50 * Second) example_pool))) = [] \<and>
   (case step (Worker 0 (Select CaseExhaustedClients))
           \<lparr>sess = example_pool, pcs = [AtSelect, Holding 2], clock = 50 * Second\<rparr> of
      Some \<sigma> \<Rightarrow> pcs \<sigma> = [Sleeping 1 (100 * Second), Holding 2] \<and>
                  qbuf (Clients (sess \<sigma>)) = [0]
    | None \<Rightarrow> False)"
  by (simp add: can_proceed_def example_pool_def chan_recv_def qbuf_def GetClient_select_def
      deref_def Until_def Sleep_until_def Second_def Millisecond_def minDuration_def
      maxDuration_def log_call_def crashed_def)

text \<open>
  C4, as the claim states it, fails: with \<open>N\<close> the number of credentials whose validation
  call returned no error, a credential whose call failed with another error than an
  \<^verbatim>\<open>ErrorResponse\<close> still gets its handles. Here no credential validates and the pool
  has two handles.
\<close>

theorem C4_counterexample:
  "InitGitHubClients Users_Get_timeout clock0 (NewSession 1 [] [''ghp_aaaaaaaaaaaa'']) =
     Returned (seeded_session Users_Get_timeout clock0 (NewSession 1 [] [''ghp_aaaaaaaaaaaa''])) \<and>
   qbuf (Clients (seeded_session Users_Get_timeout clock0 (NewSession 1 [] [''ghp_aaaaaaaaaaaa'']))) =
     [0, 1] \<and>
   validated Users_Get_timeout [''ghp_aaaaaaaaaaaa''] = []"
proof -
  let ?s = "NewSession 1 [] [''ghp_aaaaaaaaaaaa'']"
  have "InitGitHubClients Users_Get_timeout clock0 ?s =
      Returned (seeded_session Users_Get_timeout clock0 ?s)"
    using init_fits[of ?s Users_Get_timeout clock0]
    by (simp add: NewSession_def in_range_def loggable_def pool_size_def chan_size_def allocatable_def maxChan_def
        example_accepted Users_Get_timeout_def rejected_def)
  moreover have "qbuf (Clients (seeded_session Users_Get_timeout clock0 ?s)) = [0, 1]"
    by (simp add: seeded_session_def qbuf_def pool_size_def example_accepted NewSession_def upt_rec)
  moreover have "validated Users_Get_timeout [''ghp_aaaaaaaaaaaa''] = []"
    by (simp add: validated_def Users_Get_timeout_def)
  ultimately show ?thesis by simp
qed

text \<open>
  C4, amended. Let \<open>N\<close> be the number of credentials that are not refused with an
  \<^verbatim>\<open>ErrorResponse\<close> and \<open>R\<close> the worker count. When \<open>R\<close> is not negative, the channel size
  \<open>R * (len(tokens) + 1)\<close> is one that \<^verbatim>\<open>make\<close> accepts (at most \<open>maxChan\<close>), every refused
  credential has ten bytes or more and \<open>N * (R + 1)\<close> is at most the channel size, the loop builds
  exactly \<open>N * (R + 1)\<close> wrappers, each with \<^verbatim>\<open>RateLimitedUntil\<close> one second before the
  clock reading taken when it was built, all of them in \<^verbatim>\<open>Clients\<close> and none in
  \<^verbatim>\<open>ExhaustedClients\<close>; the call returns this pool when \<open>N > 0\<close>.
\<close>

theorem C4_seeded:
  assumes "Local s = []" "in_range s" "allocatable s" "loggable ug (GitHubAccessTokens s)"
    "pool_size ug s \<le> chan_size s"
  shows "\<exists>s'. InitGitHubClients ug clk s =
           (if accepted ug (GitHubAccessTokens s) = []
            then Exit (log_call FATAL ''No valid GitHub tokens provided. Quitting!'' [] s')
            else Returned s') \<and>
         length (heap s') =
           length (heap s) + length (accepted ug (GitHubAccessTokens s)) * nat (Threads s + 1) \<and>
         qbuf (Clients s') = [length (heap s)..<length (heap s')] \<and>
         qbuf (ExhaustedClients s') = [] \<and>
         (\<forall>p\<in>set (qbuf (Clients s')).
            Token (heap s' ! p) \<in> set (accepted ug (GitHubAccessTokens s)) \<and>
            RateLimitedUntil (heap s' ! p) = clk p - Second \<and>
            RateLimitedUntil (heap s' ! p) < clk p)"
proof -
  let ?s' = "seeded_session ug clk s"
  have m: "0 < nat (Threads s + 1)" using assms(2) by (simp add: in_range_def)
  then have z: "pool_size ug s = 0 \<longleftrightarrow> accepted ug (GitHubAccessTokens s) = []"
    by (simp add: pool_size_def)
  have 1: "InitGitHubClients ug clk s =
           (if accepted ug (GitHubAccessTokens s) = []
            then Exit (log_call FATAL ''No valid GitHub tokens provided. Quitting!'' [] ?s')
            else Returned ?s')"
    using init_fits[OF assms, of clk] z by simp
  have 2: "length (heap ?s') =
      length (heap s) + length (accepted ug (GitHubAccessTokens s)) * nat (Threads s + 1)"
    by (simp add: seeded_session_def length_seeded)
  have 3: "qbuf (Clients ?s') = [length (heap s)..<length (heap ?s')]"
    by (simp add: seeded_session_def length_seeded qbuf_def pool_size_def)
  have 4: "qbuf (ExhaustedClients ?s') = []"
    by (simp add: seeded_session_def qbuf_def)
  have 5: "Token (heap ?s' ! p) \<in> set (accepted ug (GitHubAccessTokens s)) \<and>
            RateLimitedUntil (heap ?s' ! p) = clk p - Second \<and>
            RateLimitedUntil (heap ?s' ! p) < clk p"
    if "p \<in> set (qbuf (Clients ?s'))" for p
    using seeded_session_handle[OF that] by (auto simp: new_wrapper_def Second_def Millisecond_def)
  from 1 2 3 4 5 show ?thesis by blast
qed

theorem C4_seeded_witness:
  "Local (NewSession 2 [] [''ghp_aaaaaaaaaaaa'', ''bad_token_0000'']) = [] \<and>
   in_range (NewSession 2 [] [''ghp_aaaaaaaaaaaa'', ''bad_token_0000'']) \<and>
   allocatable (NewSession 2 [] [''ghp_aaaaaaaaaaaa'', ''bad_token_0000'']) \<and>
   loggable Users_Get_ghp (GitHubAccessTokens (NewSession 2 [] [''ghp_aaaaaaaaaaaa'', ''bad_token_0000''])) \<and>
   pool_size Users_Get_ghp (NewSession 2 [] [''ghp_aaaaaaaaaaaa'', ''bad_token_0000''])
     \<le> chan_size (NewSession 2 [] [''ghp_aaaaaaaaaaaa'', ''bad_token_0000'']) \<and>
   (\<exists>s'. InitGitHubClients Users_Get_ghp clock0
           (NewSession 2 [] [''ghp_aaaaaaaaaaaa'', ''bad_token_0000'']) = Returned s' \<and>
         length (heap s') = 3 \<and> qbuf (Clients s') = [0, 1, 2] \<and>
         qbuf (ExhaustedClients s') = [] \<and>
         RateLimitedUntil (heap s' ! 0) < clock0 0)"
proof -
  let ?s = "NewSession 2 [] [''ghp_aaaaaaaaaaaa'', ''bad_token_0000'']"
  have h1: "Local ?s = []" by (simp add: NewSession_def)
  have h2: "in_range ?s" by (simp add: NewSession_def in_range_def)
  have ha: "allocatable ?s" by (simp add: NewSession_def allocatable_def chan_size_def maxChan_def)
  have h3: "loggable Users_Get_ghp (GitHubAccessTokens ?s)"
    by (simp add: NewSession_def loggable_def)
  have h4: "pool_size Users_Get_ghp ?s \<le> chan_size ?s"
    by (simp add: NewSession_def pool_size_def chan_size_def allocatable_def maxChan_def example_accepted)
  have tk: "GitHubAccessTokens ?s = [''ghp_aaaaaaaaaaaa'', ''bad_token_0000'']"
    "heap ?s = []" "Threads ?s = 2"
    by (simp_all add: NewSession_def)
  from C4_seeded[OF h1 h2 ha h3 h4, of clock0] obtain s' where
    a: "InitGitHubClients Users_Get_ghp clock0 ?s =
           (if accepted Users_Get_ghp (GitHubAccessTokens ?s) = []
            then Exit (log_call FATAL ''No valid GitHub tokens provided. Quitting!'' [] s')
            else Returned s')" and
    b: "length (heap s') =
           length (heap ?s) + length (accepted Users_Get_ghp (GitHubAccessTokens ?s)) * nat (Threads ?s + 1)" and
    c: "qbuf (Clients s') = [length (heap ?s)..<length (heap s')]" and
    d: "qbuf (ExhaustedClients s') = []" and
    e: "\<forall>p\<in>set (qbuf (Clients s')).
            Token (heap s' ! p) \<in> set (accepted Users_Get_ghp (GitHubAccessTokens ?s)) \<and>
            RateLimitedUntil (heap s' ! p) = clock0 p - Second \<and>
            RateLimitedUntil (heap s' ! p) < clock0 p"
    by blast
  have a': "InitGitHubClients Users_Get_ghp clock0 ?s = Returned s'"
    using a unfolding tk example_accepted by simp
  have b': "length (heap s') = 3"
    using b unfolding tk example_accepted by simp
  have c': "qbuf (Clients s') = [0, 1, 2]"
    using c unfolding tk b' by (simp add: upt_rec)
  have e': "RateLimitedUntil (heap s' ! 0) < clock0 0"
    using e unfolding c' by simp
  show ?thesis using h1 h2 ha h3 h4 a' b' c' d e' by blast
qed

text \<open>
  C5. \<^verbatim>\<open>FreeClient\<close> sends the handle to \<^verbatim>\<open>ExhaustedClients\<close> if and only if its
  \<^verbatim>\<open>RateLimitedUntil\<close> is strictly after the clock reading, and to \<^verbatim>\<open>Clients\<close>
  otherwise. When the channel has room the call returns with the handle appended to that
  channel and the other channel as it was; when it has no room the call is blocked at the
  send with both channels as they were. A call that returns has added the handle once,
  to one channel.
\<close>

theorem C5_FreeClient_queue:
  assumes "deref s p = Some client"
  shows
    "(now < RateLimitedUntil client \<and> has_room (ExhaustedClients s) \<longrightarrow>
        (\<exists>s'. FreeClient now p s = Returned s' \<and>
              qbuf (ExhaustedClients s') = qbuf (ExhaustedClients s) @ [p] \<and>
              Clients s' = Clients s)) \<and>
     (\<not> now < RateLimitedUntil client \<and> has_room (Clients s) \<longrightarrow>
        (\<exists>s'. FreeClient now p s = Returned s' \<and>
              qbuf (Clients s') = qbuf (Clients s) @ [p] \<and>
              ExhaustedClients s' = ExhaustedClients s)) \<and>
     (now < RateLimitedUntil client \<and> \<not> has_room (ExhaustedClients s) \<longrightarrow>
        FreeClient now p s = Blocked s) \<and>
     (\<not> now < RateLimitedUntil client \<and> \<not> has_room (Clients s) \<longrightarrow>
        FreeClient now p s = Blocked s) \<and>
     (\<forall>s'. FreeClient now p s = Returned s' \<longrightarrow>
        (qbuf (ExhaustedClients s') = qbuf (ExhaustedClients s) @ [p] \<longleftrightarrow>
           now < RateLimitedUntil client) \<and>
        (qbuf (Clients s') = qbuf (Clients s) @ [p] \<longleftrightarrow> \<not> now < RateLimitedUntil client) \<and>
        mset (qbuf (Clients s')) + mset (qbuf (ExhaustedClients s')) =
          add_mset p (mset (qbuf (Clients s)) + mset (qbuf (ExhaustedClients s))))"
proof (cases "now < RateLimitedUntil client")
  case True
  then have q: "FreeClient_chan now client = ToExhaustedClients"
    by (simp add: FreeClient_chan_def After_def)
  show ?thesis
  proof (cases "chan_send (ExhaustedClients s) p")
    case None
    then have "\<not> has_room (ExhaustedClients s)" using chan_send_room[of "ExhaustedClients s" p] by simp
    moreover have "FreeClient now p s = Blocked s"
      using assms q None by (simp add: FreeClient_def send_to_def)
    ultimately show ?thesis using True by simp
  next
    case (Some ch')
    then have r: "has_room (ExhaustedClients s)" using chan_send_room[of "ExhaustedClients s" p] by simp
    have f: "FreeClient now p s = Returned (s\<lparr>ExhaustedClients := Some ch'\<rparr>)"
      using assms q Some by (simp add: FreeClient_def send_to_def)
    from chan_send_Some[OF Some] have b: "qbuf (Some ch') = qbuf (ExhaustedClients s) @ [p]" by simp
    show ?thesis using True r f b by simp
  qed
next
  case False
  then have q: "FreeClient_chan now client = ToClients"
    by (simp add: FreeClient_chan_def After_def)
  show ?thesis
  proof (cases "chan_send (Clients s) p")
    case None
    then have "\<not> has_room (Clients s)" using chan_send_room[of "Clients s" p] by simp
    moreover have "FreeClient now p s = Blocked s"
      using assms q None by (simp add: FreeClient_def send_to_def)
    ultimately show ?thesis using False by simp
  next
    case (Some ch')
    then have r: "has_room (Clients s)" using chan_send_room[of "Clients s" p] by simp
    have f: "FreeClient now p s = Returned (s\<lparr>Clients := Some ch'\<rparr>)"
      using assms q Some by (simp add: FreeClient_def send_to_def)
    from chan_send_Some[OF Some] have b: "qbuf (Some ch') = qbuf (Clients s) @ [p]" by simp
    show ?thesis using False r f b by simp
  qed
qed

theorem C5_FreeClient_queue_witness:
  "deref example_pool 2 = Some (heap example_pool ! 2) \<and>
   50 * Second < RateLimitedUntil (heap example_pool ! 2) \<and>
   has_room (ExhaustedClients example_pool) \<and>
   (\<exists>s'. FreeClient (50 * Second) 2 example_pool = Returned s' \<and>
         qbuf (ExhaustedClients s') = [1, 2] \<and> qbuf (Clients s') = [0])"
proof -
  have d: "deref example_pool 2 = Some (heap example_pool ! 2)"
    by (simp add: deref_def example_pool_def)
  have l: "50 * Second < RateLimitedUntil (heap example_pool ! 2)"
    by (simp add: example_pool_def Second_def Millisecond_def)
  have r: "has_room (ExhaustedClients example_pool)"
    by (simp add: has_room_def example_pool_def)
  from C5_FreeClient_queue[OF d, of "50 * Second"] l r obtain s' where
    "FreeClient (50 * Second) 2 example_pool = Returned s'"
    "qbuf (ExhaustedClients s') = qbuf (ExhaustedClients example_pool) @ [2]"
    "Clients s' = Clients example_pool"
    by blast
  then have "FreeClient (50 * Second) 2 example_pool = Returned s' \<and>
         qbuf (ExhaustedClients s') = [1, 2] \<and> qbuf (Clients s') = [0]"
    by (simp add: example_pool_def qbuf_def)
  with d l r show ?thesis by blast
qed

text \<open>
  C6, as the claim states it, fails: it takes a pool with no handle to be the case that no
  credential validated. With the remote service unreachable no validation call returns
  without an error, and still \<^verbatim>\<open>InitGitHubClients\<close> builds the handles, logs no fatal
  message and returns the pool.
\<close>

theorem C6_counterexample:
  "validated Users_Get_timeout (GitHubAccessTokens (NewSession 3 [] [''ghp_cccccccccccc''])) = [] \<and>
   InitGitHubClients Users_Get_timeout clock0 (NewSession 3 [] [''ghp_cccccccccccc'']) =
     Returned (seeded_session Users_Get_timeout clock0 (NewSession 3 [] [''ghp_cccccccccccc''])) \<and>
   chan_len (Clients (seeded_session Users_Get_timeout clock0
                        (NewSession 3 [] [''ghp_cccccccccccc'']))) = 4 \<and>
   Log (seeded_session Users_Get_timeout clock0 (NewSession 3 [] [''ghp_cccccccccccc''])) = []"
proof -
  let ?s = "NewSession 3 [] [''ghp_cccccccccccc'']"
  have "validated Users_Get_timeout (GitHubAccessTokens ?s) = []"
    by (simp add: validated_def Users_Get_timeout_def NewSession_def)
  moreover have "InitGitHubClients Users_Get_timeout clock0 ?s =
      Returned (seeded_session Users_Get_timeout clock0 ?s)"
    using init_fits[of ?s Users_Get_timeout clock0]
    by (simp add: NewSession_def in_range_def loggable_def pool_size_def chan_size_def
        allocatable_def maxChan_def example_accepted Users_Get_timeout_def rejected_def)
  moreover have "chan_len (Clients (seeded_session Users_Get_timeout clock0 ?s)) = 4"
    by (simp add: seeded_session_def chan_len_def pool_size_def example_accepted NewSession_def)
  moreover have "Log (seeded_session Users_Get_timeout clock0 ?s) = []"
    by (simp add: seeded_session_def warn_lines_def NewSession_def Users_Get_timeout_def
        rejected_def)
  ultimately show ?thesis by simp
qed

text \<open>
  C6, amended. Take a worker count that is not negative and a channel size
  \<open>Threads * (len(tokens) + 1)\<close> in the range of a 64-bit integer. When \<^verbatim>\<open>make\<close> accepts
  the channel size, every credential is refused with an \<^verbatim>\<open>ErrorResponse\<close> and each has
  ten bytes or more, the pool has no handle and \<^verbatim>\<open>InitGitHubClients\<close> ends in the fatal
  exit, with one fatal message after the warnings, and returns no pool. When \<^verbatim>\<open>make\<close>
  accepts the channel size, a credential is not refused, every refused one has ten bytes
  or more and the handles to build are no more than the channel size, it returns the pool
  and logs no fatal message. The call exits only with an empty pool and no credential
  kept, and returns only a pool with a handle in it.
\<close>

theorem C6_fatal_iff_no_handles:
  assumes "Local s = []" "in_range s"
  shows
    "(allocatable s \<and> loggable ug (GitHubAccessTokens s) \<and>
      accepted ug (GitHubAccessTokens s) = [] \<longrightarrow>
        InitGitHubClients ug clk s =
          Exit (log_call FATAL ''No valid GitHub tokens provided. Quitting!'' []
                  (seeded_session ug clk s))) \<and>
     (allocatable s \<and> loggable ug (GitHubAccessTokens s) \<and>
      accepted ug (GitHubAccessTokens s) \<noteq> [] \<and> pool_size ug s \<le> chan_size s \<longrightarrow>
        InitGitHubClients ug clk s = Returned (seeded_session ug clk s)) \<and>
     (\<forall>s'. InitGitHubClients ug clk s = Exit s' \<longrightarrow>
        chan_len (Clients s') = 0 \<and> accepted ug (GitHubAccessTokens s) = [] \<and>
        Log s' = Log s @ warn_lines ug (GitHubAccessTokens s) @
                   [(FATAL, ''No valid GitHub tokens provided. Quitting!'', [])]) \<and>
     (\<forall>s'. InitGitHubClients ug clk s = Returned s' \<longrightarrow>
        0 < chan_len (Clients s') \<and> accepted ug (GitHubAccessTokens s) \<noteq> [] \<and>
        Log s' = Log s @ warn_lines ug (GitHubAccessTokens s)) \<and>
     (\<forall>l\<in>set (warn_lines ug (GitHubAccessTokens s)). fst l = WARN)"
proof -
  have m: "0 < nat (Threads s + 1)" using assms(2) by (simp add: in_range_def)
  then have z: "pool_size ug s = 0 \<longleftrightarrow> accepted ug (GitHubAccessTokens s) = []"
    by (simp add: pool_size_def)
  have len: "chan_len (Clients (seeded_session ug clk s)) = pool_size ug s"
    by (simp add: seeded_session_def chan_len_def)
  have lg: "Log (seeded_session ug clk s) = Log s @ warn_lines ug (GitHubAccessTokens s)"
    by (simp add: seeded_session_def)
  have 1: "InitGitHubClients ug clk s =
          Exit (log_call FATAL ''No valid GitHub tokens provided. Quitting!'' []
                  (seeded_session ug clk s))"
    if "allocatable s \<and> loggable ug (GitHubAccessTokens s) \<and>
      accepted ug (GitHubAccessTokens s) = []"
    using that init_fits[OF assms, of ug clk] z by simp
  have 2: "InitGitHubClients ug clk s = Returned (seeded_session ug clk s)"
    if "allocatable s \<and> loggable ug (GitHubAccessTokens s) \<and>
      accepted ug (GitHubAccessTokens s) \<noteq> [] \<and> pool_size ug s \<le> chan_size s"
    using that init_fits[OF assms, of ug clk] z by simp
  have 3: "chan_len (Clients s') = 0 \<and> accepted ug (GitHubAccessTokens s) = [] \<and>
        Log s' = Log s @ warn_lines ug (GitHubAccessTokens s) @
                   [(FATAL, ''No valid GitHub tokens provided. Quitting!'', [])]"
    if "InitGitHubClients ug clk s = Exit s'" for s'
    using init_Exit[OF assms that] z len lg by (simp add: log_call_def chan_len_def)
  have 4: "0 < chan_len (Clients s') \<and> accepted ug (GitHubAccessTokens s) \<noteq> [] \<and>
        Log s' = Log s @ warn_lines ug (GitHubAccessTokens s)"
    if "InitGitHubClients ug clk s = Returned s'" for s'
    using init_Returned[OF assms that] z len lg by auto
  have 5: "\<forall>l\<in>set (warn_lines ug (GitHubAccessTokens s)). fst l = WARN"
    by (auto simp: warn_lines_def)
  from 1 2 3 4 5 show ?thesis by blast
qed

theorem C6_fatal_iff_no_handles_witness:
  "Local (NewSession 1 [] [''bad_token_0000'']) = [] \<and>
   in_range (NewSession 1 [] [''bad_token_0000'']) \<and>
   allocatable (NewSession 1 [] [''bad_token_0000'']) \<and>
   loggable Users_Get_401 (GitHubAccessTokens (NewSession 1 [] [''bad_token_0000''])) \<and>
   accepted Users_Get_401 (GitHubAccessTokens (NewSession 1 [] [''bad_token_0000''])) = [] \<and>
   InitGitHubClients Users_Get_401 clock0 (NewSession 1 [] [''bad_token_0000'']) =
     Exit (log_call FATAL ''No valid GitHub tokens provided. Quitting!'' []
             (seeded_session Users_Get_401 clock0 (NewSession 1 [] [''bad_token_0000''])))"
proof -
  let ?s = "NewSession 1 [] [''bad_token_0000'']"
  have h: "Local ?s = []" "in_range ?s"
    by (simp_all add: NewSession_def in_range_def)
  have g: "allocatable ?s" "loggable Users_Get_401 (GitHubAccessTokens ?s)"
    "accepted Users_Get_401 (GitHubAccessTokens ?s) = []"
    by (simp_all add: NewSession_def loggable_def example_accepted allocatable_def chan_size_def
        maxChan_def)
  from C6_fatal_iff_no_handles[OF h, of Users_Get_401 clock0] g h show ?thesis by blast
qed

text \<open>
  C7. From the pool that \<^verbatim>\<open>InitGitHubClients\<close> returns, after any sequence of steps of
  any number of workers (calls of \<^verbatim>\<open>GetClient\<close> and \<^verbatim>\<open>FreeClient\<close>, the passes
  through the \<^verbatim>\<open>select\<close>, sleeps, waiting sends, clock ticks), the handles in
  \<^verbatim>\<open>Clients\<close>, in \<^verbatim>\<open>ExhaustedClients\<close> and in the hands of goroutines are exactly
  the handles built at initialization, each of them once: no handle is in two places or
  with two goroutines, and the three counts add up to \<open>N * (R + 1)\<close>. No step changes the
  multiset of handles.
\<close>

theorem C7_conservation:
  assumes "Local s = []" "in_range s" "InitGitHubClients ug clk s = Returned s0"
    "run es (start n s0 t0) = Some \<sigma>"
  shows
    "handles \<sigma> = mset [length (heap s)..<length (heap s) + pool_size ug s] \<and>
     distinct (qbuf (Clients (sess \<sigma>)) @ qbuf (ExhaustedClients (sess \<sigma>)) @ on_loan \<sigma>) \<and>
     length (qbuf (Clients (sess \<sigma>))) + length (qbuf (ExhaustedClients (sess \<sigma>))) +
       length (on_loan \<sigma>) =
       length (accepted ug (GitHubAccessTokens s)) * nat (Threads s + 1) \<and>
     (\<forall>e \<sigma>'. step e \<sigma> = Some \<sigma>' \<longrightarrow> handles \<sigma>' = handles \<sigma>)"
proof -
  let ?all = "[length (heap s)..<length (heap s) + pool_size ug s]"
  from init_Returned[OF assms(1-3)] have s0: "s0 = seeded_session ug clk s" by simp
  have "queued s0 = mset ?all"
    unfolding s0 by (simp add: queued_def seeded_session_def qbuf_def)
  with run_handles[OF assms(4)] have h: "handles \<sigma> = mset ?all"
    by (simp add: start_handles)
  then have m: "mset (qbuf (Clients (sess \<sigma>)) @ qbuf (ExhaustedClients (sess \<sigma>)) @ on_loan \<sigma>) =
      mset ?all"
    by (simp add: handles_def ac_simps)
  have d: "distinct (qbuf (Clients (sess \<sigma>)) @ qbuf (ExhaustedClients (sess \<sigma>)) @ on_loan \<sigma>)"
    using mset_eq_imp_distinct_iff[OF m] by simp
  from m have "length (qbuf (Clients (sess \<sigma>)) @ qbuf (ExhaustedClients (sess \<sigma>)) @ on_loan \<sigma>) =
      length ?all"
    by (rule mset_eq_length)
  then have l: "length (qbuf (Clients (sess \<sigma>))) + length (qbuf (ExhaustedClients (sess \<sigma>))) +
       length (on_loan \<sigma>) = length (accepted ug (GitHubAccessTokens s)) * nat (Threads s + 1)"
    by (simp add: pool_size_def)
  from h d l step_handles show ?thesis by blast
qed

theorem C7_conservation_witness:
  "Local (NewSession 1 [] [''ghp_aaaaaaaaaaaa'']) = [] \<and>
   in_range (NewSession 1 [] [''ghp_aaaaaaaaaaaa'']) \<and>
   InitGitHubClients Users_Get_ok clock0 (NewSession 1 [] [''ghp_aaaaaaaaaaaa'']) =
     Returned (seeded_session Users_Get_ok clock0 (NewSession 1 [] [''ghp_aaaaaaaaaaaa''])) \<and>
   (\<exists>\<sigma>. run [Worker 0 CallGetClient, Worker 0 (Select CaseClients), Tick 5, Worker 1 CallGetClient]
           (start 2 (seeded_session Users_Get_ok clock0 (NewSession 1 [] [''ghp_aaaaaaaaaaaa''])) 0) =
         Some \<sigma> \<and>
        qbuf (Clients (sess \<sigma>)) = [1] \<and> on_loan \<sigma> = [0] \<and>
        handles \<sigma> = mset [0, 1] \<and>
        length (qbuf (Clients (sess \<sigma>))) + length (qbuf (ExhaustedClients (sess \<sigma>))) +
          length (on_loan \<sigma>) = 2)"
proof -
  let ?s = "NewSession 1 [] [''ghp_aaaaaaaaaaaa'']"
  let ?pool = "seeded_session Users_Get_ok clock0 ?s"
  let ?es = "[Worker 0 CallGetClient, Worker 0 (Select CaseClients), Tick 5, Worker 1 CallGetClient]"
  have acc: "accepted Users_Get_ok [''ghp_aaaaaaaaaaaa''] = [''ghp_aaaaaaaaaaaa'']"
    by (simp add: accepted_def Users_Get_ok_def rejected_def)
  have h: "Local ?s = []" "in_range ?s"
    by (simp_all add: NewSession_def in_range_def)
  have i: "InitGitHubClients Users_Get_ok clock0 ?s = Returned ?pool"
    using init_fits[of ?s Users_Get_ok clock0] h
    by (simp add: NewSession_def loggable_def pool_size_def chan_size_def allocatable_def maxChan_def acc
        Users_Get_ok_def rejected_def)
  have "map_option (\<lambda>\<sigma>. (qbuf (Clients (sess \<sigma>)), on_loan \<sigma>)) (run ?es (start 2 ?pool 0)) =
      Some ([1], [0])"
    by code_simp
  then obtain \<sigma> where r: "run ?es (start 2 ?pool 0) = Some \<sigma>"
    and q: "qbuf (Clients (sess \<sigma>)) = [1]" and o: "on_loan \<sigma> = [0]"
    by auto
  from C7_conservation[OF h i r] have
    "handles \<sigma> = mset [length (heap ?s)..<length (heap ?s) + pool_size Users_Get_ok ?s]"
    "length (qbuf (Clients (sess \<sigma>))) + length (qbuf (ExhaustedClients (sess \<sigma>))) +
       length (on_loan \<sigma>) =
       length (accepted Users_Get_ok (GitHubAccessTokens ?s)) * nat (Threads ?s + 1)"
    by blast+
  then have "handles \<sigma> = mset [0, 1]"
    "length (qbuf (Clients (sess \<sigma>))) + length (qbuf (ExhaustedClients (sess \<sigma>))) +
       length (on_loan \<sigma>) = 2"
    by (simp_all add: NewSession_def pool_size_def acc upt_rec)
  with h i r q o show ?thesis by blast
qed

text \<open>
  C8. When the local-mode flag is not empty, \<^verbatim>\<open>InitGitHubClients\<close> returns the session
  it was given: no validation call is recorded, neither channel is made, nothing else in
  the session changes, and the call does not end in the fatal exit.
\<close>

theorem C8_local_mode:
  "Local s \<noteq> [] \<Longrightarrow> InitGitHubClients ug clk s = Returned s"
  by (simp add: InitGitHubClients_def)

theorem C8_local_mode_witness:
  "Local (NewSession 4 ''1'' [''ghp_0123456789abcdef'']) \<noteq> [] \<and>
   InitGitHubClients Users_Get_ok clock0 (NewSession 4 ''1'' [''ghp_0123456789abcdef'']) =
     Returned (NewSession 4 ''1'' [''ghp_0123456789abcdef''])"
  using C8_local_mode[of "NewSession 4 ''1'' [''ghp_0123456789abcdef'']" Users_Get_ok clock0]
  by (simp add: NewSession_def)





text \<open>
  C10. Every place that logs a token takes \<^verbatim>\<open>token[:10]\<close>. For a token of fewer than ten
  bytes the slice is out of range: the warning for a refused credential in
  \<^verbatim>\<open>InitGitHubClients\<close>, the debug line of the first \<^verbatim>\<open>select\<close> case and the debug
  line after the sleep of the second each panic, and the panic ends the process. For a
  token of ten bytes or more each of them logs the first ten bytes and goes on.
\<close>

theorem C10_short_token_panics:
  "(rejected (ug t) \<and> length t < 10 \<longrightarrow>
      range_tokens ug clk (t # ts) s =
        Panic SliceBoundsOutOfRange (s\<lparr>UsersGet := UsersGet s @ [t]\<rparr>)) \<and>
   (rejected (ug t) \<and> 10 \<le> length t \<longrightarrow>
      range_tokens ug clk (t # ts) s =
        range_tokens ug clk ts
          (log_call WARN ''Failed to validate token %s[..]: %s'' [Str (take 10 t), Err (the (ug t))]
             (s\<lparr>UsersGet := UsersGet s @ [t]\<rparr>))) \<and>
   (chan_recv (Clients s) = Some (p, ch) \<and> deref s p = Some client \<longrightarrow>
      GetClient_select CaseClients now s =
        (if length (Token client) < 10 then (Dead SliceBoundsOutOfRange p, s\<lparr>Clients := Some ch\<rparr>)
         else (Holding p,
               log_call DEBUG ''Using client with token: %s'' [Str (take 10 (Token client))]
                 (s\<lparr>Clients := Some ch\<rparr>)))) \<and>
   (deref s p = Some client \<longrightarrow>
      GetClient_wake p now s =
        (if length (Token client) < 10 then (Dead SliceBoundsOutOfRange p, s)
         else (Freeing p (FreeClient_chan now client) ToLoop,
               log_call DEBUG ''Returning client %s to pool'' [Str (take 10 (Token client))] s))) \<and>
   (\<not> crashed \<sigma> \<and> w < length (pcs \<sigma>) \<and> pcs \<sigma> ! w = AtSelect \<and>
    chan_recv (Clients (sess \<sigma>)) = Some (p, ch) \<and> deref (sess \<sigma>) p = Some client \<and>
    length (Token client) < 10 \<longrightarrow>
      (\<exists>\<sigma>'. step (Worker w (Select CaseClients)) \<sigma> = Some \<sigma>' \<and> crashed \<sigma>')) \<and>
   (\<not> crashed \<sigma> \<and> w < length (pcs \<sigma>) \<and> pcs \<sigma> ! w = Sleeping p u \<and> u \<le> clock \<sigma> \<and>
    deref (sess \<sigma>) p = Some client \<and> length (Token client) < 10 \<longrightarrow>
      (\<exists>\<sigma>'. step (Worker w Wake) \<sigma> = Some \<sigma>' \<and> crashed \<sigma>'))"
proof (intro conjI impI)
  assume "rejected (ug t) \<and> length t < 10"
  then show "range_tokens ug clk (t # ts) s =
        Panic SliceBoundsOutOfRange (s\<lparr>UsersGet := UsersGet s @ [t]\<rparr>)"
    by (simp add: Let_def slice10_def)
next
  assume "rejected (ug t) \<and> 10 \<le> length t"
  then show "range_tokens ug clk (t # ts) s =
        range_tokens ug clk ts
          (log_call WARN ''Failed to validate token %s[..]: %s'' [Str (take 10 t), Err (the (ug t))]
             (s\<lparr>UsersGet := UsersGet s @ [t]\<rparr>))"
    by (simp add: Let_def slice10_def)
next
  assume "chan_recv (Clients s) = Some (p, ch) \<and> deref s p = Some client"
  then show "GetClient_select CaseClients now s =
        (if length (Token client) < 10 then (Dead SliceBoundsOutOfRange p, s\<lparr>Clients := Some ch\<rparr>)
         else (Holding p,
               log_call DEBUG ''Using client with token: %s'' [Str (take 10 (Token client))]
                 (s\<lparr>Clients := Some ch\<rparr>)))"
    by (simp add: GetClient_select_def deref_frame slice10_def Let_def)
next
  assume "deref s p = Some client"
  then show "GetClient_wake p now s =
        (if length (Token client) < 10 then (Dead SliceBoundsOutOfRange p, s)
         else (Freeing p (FreeClient_chan now client) ToLoop,
               log_call DEBUG ''Returning client %s to pool'' [Str (take 10 (Token client))] s))"
    by (simp add: GetClient_wake_def slice10_def)
next
  assume a: "\<not> crashed \<sigma> \<and> w < length (pcs \<sigma>) \<and> pcs \<sigma> ! w = AtSelect \<and>
    chan_recv (Clients (sess \<sigma>)) = Some (p, ch) \<and> deref (sess \<sigma>) p = Some client \<and>
    length (Token client) < 10"
  then have "GetClient_select CaseClients (clock \<sigma>) (sess \<sigma>) =
      (Dead SliceBoundsOutOfRange p, (sess \<sigma>)\<lparr>Clients := Some ch\<rparr>)"
    by (simp add: GetClient_select_def deref_frame slice10_def Let_def)
  with a show "\<exists>\<sigma>'. step (Worker w (Select CaseClients)) \<sigma> = Some \<sigma>' \<and> crashed \<sigma>'"
    by (simp add: can_proceed_def crashed_def list_ex_update)
next
  assume a: "\<not> crashed \<sigma> \<and> w < length (pcs \<sigma>) \<and> pcs \<sigma> ! w = Sleeping p u \<and> u \<le> clock \<sigma> \<and>
    deref (sess \<sigma>) p = Some client \<and> length (Token client) < 10"
  then have "GetClient_wake p (clock \<sigma>) (sess \<sigma>) = (Dead SliceBoundsOutOfRange p, sess \<sigma>)"
    by (simp add: GetClient_wake_def slice10_def)
  with a show "\<exists>\<sigma>'. step (Worker w Wake) \<sigma> = Some \<sigma>' \<and> crashed \<sigma>'"
    by (simp add: crashed_def list_ex_update)
qed

theorem C10_short_token_panics_witness:
  "rejected (Users_Get_401 ''tok'') \<and> length ''tok'' < 10 \<and>
   range_tokens Users_Get_401 clock0 [''tok''] (NewSession 1 [] [''tok'']) =
     Panic SliceBoundsOutOfRange ((NewSession 1 [] [''tok''])\<lparr>UsersGet := [''tok'']\<rparr>) \<and>
   chan_recv (Clients (seeded_session Users_Get_timeout clock0 (NewSession 1 [] [''tok'']))) =
     Some (0, \<lparr>cap = 2, buf = [1]\<rparr>) \<and>
   deref (seeded_session Users_Get_timeout clock0 (NewSession 1 [] [''tok''])) 0 =
     Some (new_wrapper clock0 ''tok'' 0) \<and>
   fst (GetClient_select CaseClients 0
          (seeded_session Users_Get_timeout clock0 (NewSession 1 [] [''tok'']))) =
     Dead SliceBoundsOutOfRange 0"
proof -
  let ?pool = "seeded_session Users_Get_timeout clock0 (NewSession 1 [] [''tok''])"
  have r: "rejected (Users_Get_401 ''tok'') \<and> length ''tok'' < 10"
    by (simp add: Users_Get_401_def rejected_def)
  have c: "chan_recv (Clients ?pool) = Some (0, \<lparr>cap = 2, buf = [1]\<rparr>)"
    by (simp add: seeded_session_def chan_recv_def pool_size_def chan_size_def allocatable_def maxChan_def example_accepted
        NewSession_def upt_rec)
  have d: "deref ?pool 0 = Some (new_wrapper clock0 ''tok'' 0)"
    by (simp add: seeded_session_def deref_def example_accepted NewSession_def upt_rec)
  note inst = C10_short_token_panics[where ug = Users_Get_401 and t = "''tok''" and clk = clock0
      and ts = "[]" and s = "NewSession 1 [] [''tok'']"]
  note inst2 = C10_short_token_panics[where s = ?pool and p = 0 and ch = "\<lparr>cap = 2, buf = [1]\<rparr>"
      and client = "new_wrapper clock0 ''tok'' 0" and now = 0]
  from inst r have 1: "range_tokens Users_Get_401 clock0 [''tok''] (NewSession 1 [] [''tok'']) =
     Panic SliceBoundsOutOfRange ((NewSession 1 [] [''tok''])\<lparr>UsersGet := [''tok'']\<rparr>)"
    by (simp add: NewSession_def)
  from inst2 c d have "GetClient_select CaseClients 0 ?pool =
        (if length (Token (new_wrapper clock0 ''tok'' 0)) < 10
         then (Dead SliceBoundsOutOfRange 0, ?pool\<lparr>Clients := Some \<lparr>cap = 2, buf = [1]\<rparr>\<rparr>)
         else (Holding 0,
               log_call DEBUG ''Using client with token: %s''
                 [Str (take 10 (Token (new_wrapper clock0 ''tok'' 0)))]
                 (?pool\<lparr>Clients := Some \<lparr>cap = 2, buf = [1]\<rparr>\<rparr>)))"
    by blast
  then have 2: "fst (GetClient_select CaseClients 0 ?pool) = Dead SliceBoundsOutOfRange 0"
    by (simp add: new_wrapper_def)
  from r 1 c d 2 show ?thesis by blast
qed

end
